theory Spec2Isabelle
  imports Main
begin

section \<open>Seat monitor: the extractor of \<open>fetch_enrollment\<close>\<close>

text \<open>
  The monitor (\<open>monitor.py\<close>) polls a timetable page, reads the enrolment and the limit
  of one course section from the flat sequence of \<open>td\<close> cells, and notifies when a seat
  is open. Python strings are modelled as \<open>string\<close>, each \<open>char\<close> standing for a code
  point below 256; Python integers are \<open>int\<close>; an exception is a value of \<open>exn\<close>.
\<close>

subsection \<open>Configuration constants\<close>

definition TARGET_CRN :: string where
  "TARGET_CRN = ''31322''"

definition COURSE_NAME :: string where
  "COURSE_NAME = ''COSC 031 - Algorithms''"

definition CHECK_INTERVAL_SECONDS :: nat where
  "CHECK_INTERVAL_SECONDS = 5 * 60"

definition MAX_BACKOFF_SECONDS :: nat where
  "MAX_BACKOFF_SECONDS = 30 * 60"

definition FRIEND_DELAY_SECONDS :: nat where
  "FRIEND_DELAY_SECONDS = 2 * 60"

subsection \<open>Exceptions, log records and observable events\<close>

datatype exn =
    IndexError
  | ValueError
  | RequestException string
  | KeyboardInterrupt
  | OSError string
  | SMTPException string

text \<open>How a call ends: with a value, or with an exception that leaves it.\<close>

datatype 'a outcome = Returns 'a | Raises exn

datatype level = INFO | WARNING | ERROR

text \<open>One constructor for each logging call of the source, carrying the call's arguments.\<close>

datatype log_line =
    Starting_monitor string string
  | Checking_every nat
  | Email_sent string
  | Email_failed string exn
  | Found_but_failed string exn
  | Crn_not_found string
  | Failed_to_fetch nat
  | Enrolled_line string int int
  | Spot_available string
  | Full_again
  | Request_error string nat
  | Stopped_by_user

datatype event =
    Log level log_line
  | Sleep nat
  | Call_notify string string
  | Osascript string
  | Smtp_attempt string string string
  | Thread_start string string

subsection \<open>The Python built-ins the extractor calls\<close>

text \<open>\<open>str.isspace\<close> on the code points below 256.\<close>

definition py_isspace :: "char \<Rightarrow> bool" where
  "py_isspace c = (let n = (of_char c :: nat) in
     (9 \<le> n \<and> n \<le> 13) \<or> (28 \<le> n \<and> n \<le> 32) \<or> n = 133 \<or> n = 160)"

text \<open>\<open>str.strip()\<close>.\<close>

definition py_strip :: "string \<Rightarrow> string" where
  "py_strip s = rev (dropWhile py_isspace (rev (dropWhile py_isspace s)))"

text \<open>
  A cell is a \<open>td\<close> element, given by the text fragments below it in document order.
  \<open>cell.get_text(strip=True)\<close> strips every fragment, drops the empty ones and joins the
  rest with the empty separator.
\<close>

type_synonym cell = "string list"

definition get_text_strip :: "cell \<Rightarrow> string" where
  "get_text_strip c = concat (filter (\<lambda>t. t \<noteq> []) (map py_strip c))"

text \<open>
  \<open>int(s)\<close> in base 10: blanks around the literal are skipped (the file separators
  28 to 31 are not blanks for \<open>int\<close>), one sign is allowed, the digits may be separated by
  single underscores, and a literal of more than 4300 digits is refused. Every failure is
  a \<open>ValueError\<close>.
\<close>

definition int_isspace :: "char \<Rightarrow> bool" where
  "int_isspace c = (let n = (of_char c :: nat) in
     (9 \<le> n \<and> n \<le> 13) \<or> n = 32 \<or> n = 133 \<or> n = 160)"

definition int_strip :: "string \<Rightarrow> string" where
  "int_strip s = rev (dropWhile int_isspace (rev (dropWhile int_isspace s)))"

definition is_digit :: "char \<Rightarrow> bool" where
  "is_digit c = (let n = (of_char c :: nat) in 48 \<le> n \<and> n \<le> 57)"

definition digit_val :: "char \<Rightarrow> nat" where
  "digit_val c = of_char c - 48"

definition int_max_str_digits :: nat where
  "int_max_str_digits = 4300"

text \<open>
  The digits of the literal: \<open>prev\<close> says that the character before was a digit (an
  underscore is legal only between two digits), \<open>acc\<close> is the value read so far and \<open>k\<close>
  the number of digits read.
\<close>

fun scan_digits :: "bool \<Rightarrow> nat \<Rightarrow> nat \<Rightarrow> string \<Rightarrow> (nat \<times> nat) option" where
  "scan_digits prev acc k [] = (if prev then Some (acc, k) else None)"
| "scan_digits prev acc k (c # cs) =
     (if is_digit c then scan_digits True (10 * acc + digit_val c) (Suc k) cs
      else if c = CHR ''_'' \<and> prev then scan_digits False acc k cs
      else None)"

definition py_int :: "string \<Rightarrow> int outcome" where
  "py_int s =
     (case int_strip s of
        [] \<Rightarrow> Raises ValueError
      | c # cs \<Rightarrow>
          (let neg = (c = CHR ''-'');
               body = (if c = CHR ''-'' \<or> c = CHR ''+'' then cs else c # cs)
           in case scan_digits False 0 0 body of
                None \<Rightarrow> Raises ValueError
              | Some (v, k) \<Rightarrow>
                  if k > int_max_str_digits then Raises ValueError
                  else Returns (if neg then - int v else int v)))"

text \<open>\<open>xs[i]\<close> for an index that is not negative.\<close>

definition py_index :: "'a list \<Rightarrow> nat \<Rightarrow> 'a outcome" where
  "py_index xs i = (if i < length xs then Returns (xs ! i) else Raises IndexError)"

subsection \<open>The scan over the cells\<close>

text \<open>The body of the \<open>try\<close> at the matching cell \<open>i\<close>.\<close>

definition read_lim_enrl :: "cell list \<Rightarrow> nat \<Rightarrow> (int \<times> int) outcome" where
  "read_lim_enrl cells i =
     (case py_index cells (i + 15) of
        Raises e \<Rightarrow> Raises e
      | Returns c15 \<Rightarrow>
          (let lim_text = get_text_strip c15 in
           case py_index cells (i + 16) of
             Raises e \<Rightarrow> Raises e
           | Returns c16 \<Rightarrow>
               (let enrl_text = get_text_strip c16 in
                case py_int enrl_text of
                  Raises e \<Rightarrow> Raises e
                | Returns enrl \<Rightarrow>
                    (case py_int lim_text of
                       Raises e \<Rightarrow> Raises e
                     | Returns lim \<Rightarrow> Returns (enrl, lim)))))"

text \<open>
  The \<open>try\<close> statement at the matching cell \<open>i\<close>: the handler takes \<open>IndexError\<close> and
  \<open>ValueError\<close>, logs a warning and returns \<open>None\<close>. The result is the log written and
  either the exception that leaves the statement or the value returned.
\<close>

definition try_read :: "cell list \<Rightarrow> nat \<Rightarrow> event list \<times> (int \<times> int) option outcome" where
  "try_read cells i =
     (case read_lim_enrl cells i of
        Returns r \<Rightarrow> ([], Returns (Some r))
      | Raises e \<Rightarrow>
          if e = IndexError \<or> e = ValueError
          then ([Log WARNING (Found_but_failed TARGET_CRN e)], Returns None)
          else ([], Raises e))"

text \<open>
  The \<open>for i, cell in enumerate(cells)\<close> loop, which returns at the first cell whose text
  is the CRN, and the fall-through after the loop.
\<close>

fun scan_cells :: "cell list \<Rightarrow> (nat \<times> cell) list \<Rightarrow> event list \<times> (int \<times> int) option outcome" where
  "scan_cells cells [] = ([Log WARNING (Crn_not_found TARGET_CRN)], Returns None)"
| "scan_cells cells ((i, c) # rest) =
     (if get_text_strip c = TARGET_CRN then try_read cells i else scan_cells cells rest)"

definition extract_cells :: "cell list \<Rightarrow> event list \<times> ((int \<times> int) option outcome)" where
  "extract_cells cells = scan_cells cells (enumerate 0 cells)"

section \<open>The notifier\<close>

text \<open>
  \<open>EMAIL_ADDRESS\<close> and \<open>FRIEND_EMAILS\<close> come from the module \<open>config\<close>, which is not part of
  the sources; they are parameters of the model.
\<close>

record config =
  EMAIL_ADDRESS :: string
  FRIEND_EMAILS :: "string list"

text \<open>
  What the outside world does during one iteration of the loop:
  \<^item> \<open>http\<close>: the request, \<open>raise_for_status\<close> and the parse of the body end with the
    \<open>td\<close> cells of the page or with an exception;
  \<^item> \<open>alert\<close>: \<open>subprocess.run\<close> ends with the exit status of \<open>osascript\<close>, raises
    \<open>OSError\<close> when the process cannot be started, or is cut by \<open>KeyboardInterrupt\<close>;
  \<^item> \<open>smtp\<close>: the body of the \<open>try\<close> of \<open>send_email\<close> completes or raises;
  \<^item> \<open>sleep_interrupted\<close>: the \<open>time.sleep\<close> of the iteration is cut by \<open>KeyboardInterrupt\<close>.
  Logging calls and the start of the background thread are taken to complete.
\<close>

datatype alert_result = Exited int | Not_started string | Alert_interrupted

record world =
  http :: "cell list outcome"
  alert :: alert_result
  smtp :: "unit outcome"
  sleep_interrupted :: bool

text \<open>\<open>sep.join(xs)\<close>.\<close>

fun py_join :: "string \<Rightarrow> string list \<Rightarrow> string" where
  "py_join sep [] = []"
| "py_join sep [x] = x"
| "py_join sep (x # y # ys) = x @ sep @ py_join sep (y # ys)"

text \<open>
  \<open>str(n)\<close> for an integer, which is also what an f-string field and \<open>%d\<close> produce: the
  decimal digits, after a minus sign when negative. A number of more than 4300 digits is
  refused with \<open>ValueError\<close>, by the limit that \<open>int\<close> applies to its literal.
\<close>

function str_nat :: "nat \<Rightarrow> string" where
  "str_nat n = (if n < 10 then [char_of (48 + n)] else str_nat (n div 10) @ [char_of (48 + n mod 10)])"
  by pat_completeness auto
termination
  by (relation "measure (\<lambda>n. n)") auto

declare str_nat.simps [simp del]

definition py_str :: "int \<Rightarrow> string outcome" where
  "py_str i =
     (let ds = str_nat (nat \<bar>i\<bar>)
      in if length ds > int_max_str_digits then Raises ValueError
         else Returns (if i < 0 then CHR ''-'' # ds else ds))"

text \<open>\<open>isinstance(e, Exception)\<close>: of the exceptions modelled, only \<open>KeyboardInterrupt\<close> is not.\<close>

definition is_Exception :: "exn \<Rightarrow> bool" where
  "is_Exception e = (e \<noteq> KeyboardInterrupt)"

definition email_body :: "string \<Rightarrow> string" where
  "email_body message =
     message @ [CHR 0x0A, CHR 0x0A] @ ''Go enroll now!'' @ [CHR 0x0A]
       @ ''https://oracle-www.dartmouth.edu/dart/groucho/timetable.main''"

definition send_email :: "config \<Rightarrow> unit outcome \<Rightarrow> string \<Rightarrow> string \<Rightarrow> string list option
    \<Rightarrow> event list \<times> unit outcome" where
  "send_email cfg sm title message recipients =
     (let recipients = (case recipients of None \<Rightarrow> [EMAIL_ADDRESS cfg] | Some r \<Rightarrow> r);
          attempt = Smtp_attempt title (email_body message) (py_join '', '' recipients)
      in case sm of
           Returns u \<Rightarrow> ([attempt, Log INFO (Email_sent (py_join '', '' recipients))], Returns ())
         | Raises e \<Rightarrow>
             if is_Exception e
             then ([attempt, Log WARNING (Email_failed (py_join '', '' recipients) e)], Returns ())
             else ([attempt], Raises e))"

text \<open>
  \<open>send_delayed_friend_emails\<close>, the body of the background thread: it sleeps for the
  friends' delay and mails the friends.
\<close>

definition send_delayed_friend_emails :: "config \<Rightarrow> unit outcome \<Rightarrow> string \<Rightarrow> string
    \<Rightarrow> event list \<times> unit outcome" where
  "send_delayed_friend_emails cfg sm title message =
     (case send_email cfg sm title message (Some (FRIEND_EMAILS cfg)) of
        (tr, r) \<Rightarrow> (Sleep FRIEND_DELAY_SECONDS # tr, r))"

definition osascript_source :: "string \<Rightarrow> string \<Rightarrow> string" where
  "osascript_source title message =
     ''display notification '' @ [CHR 0x22] @ message @ [CHR 0x22] @ '' with title ''
       @ [CHR 0x22] @ title @ [CHR 0x22] @ '' sound name '' @ [CHR 0x22] @ ''Glass'' @ [CHR 0x22]"

text \<open>
  \<open>notify\<close>: the first event records the call; \<open>subprocess.run\<close> is called without
  \<open>check\<close>, so an exit status is dropped, and nothing in \<open>notify\<close> catches an exception.
\<close>

definition notify :: "config \<Rightarrow> world \<Rightarrow> string \<Rightarrow> string \<Rightarrow> event list \<times> unit outcome" where
  "notify cfg w title message =
     (let tr0 = [Call_notify title message, Osascript (osascript_source title message)]
      in case alert w of
           Not_started m \<Rightarrow> (tr0, Raises (OSError m))
         | Alert_interrupted \<Rightarrow> (tr0, Raises KeyboardInterrupt)
         | Exited status \<Rightarrow>
             (case send_email cfg (smtp w) title message None of
                (tr1, Raises e) \<Rightarrow> (tr0 @ tr1, Raises e)
              | (tr1, Returns u) \<Rightarrow> (tr0 @ tr1 @ [Thread_start title message], Returns ())))"

section \<open>The poll loop\<close>

definition fetch_enrollment :: "cell list outcome \<Rightarrow> event list \<times> (int \<times> int) option outcome" where
  "fetch_enrollment h =
     (case h of
        Raises e \<Rightarrow> ([], Raises e)
      | Returns cells \<Rightarrow> extract_cells cells)"

record monitor_state =
  consecutive_failures :: nat
  notified :: bool

text \<open>\<open>time.sleep(seconds)\<close>.\<close>

definition time_sleep :: "world \<Rightarrow> nat \<Rightarrow> event list \<times> unit outcome" where
  "time_sleep w seconds =
     ([Sleep seconds], if sleep_interrupted w then Raises KeyboardInterrupt else Returns ())"

text \<open>
  The f-string that builds \<open>msg\<close>: its three fields are formatted from left to right, and
  the first that fails ends the expression with its exception.
\<close>

definition spot_message :: "int \<Rightarrow> int \<Rightarrow> int \<Rightarrow> string outcome" where
  "spot_message spots enrl lim =
     (case py_str spots of
        Raises e \<Rightarrow> Raises e
      | Returns spots_text \<Rightarrow>
          (case py_str enrl of
             Raises e \<Rightarrow> Raises e
           | Returns enrl_text \<Rightarrow>
               (case py_str lim of
                  Raises e \<Rightarrow> Raises e
                | Returns lim_text \<Rightarrow>
                    Returns (spots_text @ '' spot(s) open! Enrolled: '' @ enrl_text
                      @ ''/'' @ lim_text))))"

text \<open>How the body of the \<open>try\<close> ends when no exception leaves it.\<close>

datatype flow = Falls_through | Continues

definition try_body :: "config \<Rightarrow> world \<Rightarrow> monitor_state
    \<Rightarrow> monitor_state \<times> event list \<times> flow outcome" where
  "try_body cfg w s =
     (case fetch_enrollment (http w) of
        (tr, Raises e) \<Rightarrow> (s, tr, Raises e)
      | (tr, Returns None) \<Rightarrow>
          (let s1 = s\<lparr>consecutive_failures := consecutive_failures s + 1\<rparr>;
               wait = min (CHECK_INTERVAL_SECONDS * 2 ^ consecutive_failures s1) MAX_BACKOFF_SECONDS;
               tr1 = tr @ [Log ERROR (Failed_to_fetch wait)]
           in case time_sleep w wait of
                (tr2, Raises e) \<Rightarrow> (s1, tr1 @ tr2, Raises e)
              | (tr2, Returns u) \<Rightarrow> (s1, tr1 @ tr2, Returns Continues))
      | (tr, Returns (Some (enrl, lim))) \<Rightarrow>
          (let s1 = s\<lparr>consecutive_failures := 0\<rparr>;
               tr1 = tr @ [Log INFO (Enrolled_line COURSE_NAME enrl lim)]
           in if enrl < lim then
                (let spots = lim - enrl
                 in case spot_message spots enrl lim of
                      Raises e \<Rightarrow> (s1, tr1, Raises e)
                    | Returns msg \<Rightarrow>
                        (let tr2 = tr1 @ [Log INFO (Spot_available msg)]
                         in case notify cfg w (''SPOT OPEN: '' @ COURSE_NAME) msg of
                              (tr3, Raises e) \<Rightarrow> (s1, tr2 @ tr3, Raises e)
                            | (tr3, Returns u) \<Rightarrow>
                                (if \<not> notified s1 then s1\<lparr>notified := True\<rparr> else s1,
                                 tr2 @ tr3, Returns Falls_through)))
              else
                (if notified s1
                 then (s1\<lparr>notified := False\<rparr>, tr1 @ [Log INFO Full_again], Returns Falls_through)
                 else (s1, tr1, Returns Falls_through))))"

text \<open>How one iteration ends: the loop goes on, \<open>break\<close>, or an exception leaves \<open>run\<close>.\<close>

datatype control = Goes_on | Break | Propagates exn

text \<open>
  One iteration of \<open>while True\<close>: the \<open>try\<close>, its two handlers, and the \<open>time.sleep\<close> after
  it. An exception raised inside a handler is not caught by the other handler.
\<close>

definition run_iteration :: "config \<Rightarrow> world \<Rightarrow> monitor_state
    \<Rightarrow> monitor_state \<times> event list \<times> control" where
  "run_iteration cfg w s =
     (case try_body cfg w s of
        (s1, tr, Returns Continues) \<Rightarrow> (s1, tr, Goes_on)
      | (s1, tr, Returns Falls_through) \<Rightarrow>
          (case time_sleep w CHECK_INTERVAL_SECONDS of
             (tr1, Raises e) \<Rightarrow> (s1, tr @ tr1, Propagates e)
           | (tr1, Returns u) \<Rightarrow> (s1, tr @ tr1, Goes_on))
      | (s1, tr, Raises (RequestException m)) \<Rightarrow>
          (let s2 = s1\<lparr>consecutive_failures := consecutive_failures s1 + 1\<rparr>;
               wait = min (CHECK_INTERVAL_SECONDS * 2 ^ consecutive_failures s2) MAX_BACKOFF_SECONDS;
               tr1 = tr @ [Log ERROR (Request_error m wait)]
           in case time_sleep w wait of
                (tr2, Raises e) \<Rightarrow> (s2, tr1 @ tr2, Propagates e)
              | (tr2, Returns u) \<Rightarrow> (s2, tr1 @ tr2, Goes_on))
      | (s1, tr, Raises KeyboardInterrupt) \<Rightarrow> (s1, tr @ [Log INFO Stopped_by_user], Break)
      | (s1, tr, Raises e) \<Rightarrow> (s1, tr, Propagates e))"

text \<open>The loop over the iterations that the given worlds drive, one world for each.\<close>

fun run_loop :: "config \<Rightarrow> world list \<Rightarrow> monitor_state \<Rightarrow> monitor_state \<times> event list \<times> control" where
  "run_loop cfg [] s = (s, [], Goes_on)"
| "run_loop cfg (w # ws) s =
     (case run_iteration cfg w s of
        (s1, tr, Goes_on) \<Rightarrow>
          (case run_loop cfg ws s1 of (s2, tr1, c) \<Rightarrow> (s2, tr @ tr1, c))
      | (s1, tr, c) \<Rightarrow> (s1, tr, c))"

definition initial_state :: monitor_state where
  "initial_state = \<lparr>consecutive_failures = 0, notified = False\<rparr>"

definition run :: "config \<Rightarrow> world list \<Rightarrow> monitor_state \<times> event list \<times> control" where
  "run cfg ws =
     (case run_loop cfg ws initial_state of
        (s, tr, c) \<Rightarrow>
          (s, [Log INFO (Starting_monitor COURSE_NAME TARGET_CRN),
               Log INFO (Checking_every CHECK_INTERVAL_SECONDS)] @ tr, c))"

subsection \<open>Reading a trace\<close>

fun notify_calls :: "event list \<Rightarrow> (string \<times> string) list" where
  "notify_calls [] = []"
| "notify_calls (Call_notify title message # tr) = (title, message) # notify_calls tr"
| "notify_calls (ev # tr) = notify_calls tr"

fun sleeps :: "event list \<Rightarrow> nat list" where
  "sleeps [] = []"
| "sleeps (Sleep n # tr) = n # sleeps tr"
| "sleeps (ev # tr) = sleeps tr"

text \<open>The pairs (enrolled, limit) of the successful polls, oldest first.\<close>

fun polls :: "event list \<Rightarrow> (int \<times> int) list" where
  "polls [] = []"
| "polls (Log lv (Enrolled_line name enrl lim) # tr) = (enrl, lim) # polls tr"
| "polls (ev # tr) = polls tr"

text \<open>The log records of a trace, in order.\<close>

fun logs :: "event list \<Rightarrow> (level \<times> log_line) list" where
  "logs [] = []"
| "logs (Log lv line # tr) = (lv, line) # logs tr"
| "logs (ev # tr) = logs tr"

text \<open>A poll result shows an open seat.\<close>

definition seat_open :: "(int \<times> int) \<Rightarrow> bool" where
  "seat_open p = (fst p < snd p)"

text \<open>A failed poll: \<open>fetch_enrollment\<close> returns \<open>None\<close> or raises \<open>RequestException\<close>.\<close>

definition failed_poll :: "world \<Rightarrow> bool" where
  "failed_poll w =
     (case snd (fetch_enrollment (http w)) of
        Returns None \<Rightarrow> True
      | Returns (Some r) \<Rightarrow> False
      | Raises (RequestException m) \<Rightarrow> True
      | Raises e \<Rightarrow> False)"

text \<open>The parts of the result of an iteration or of a run.\<close>

definition state_of :: "monitor_state \<times> event list \<times> control \<Rightarrow> monitor_state" where
  "state_of r = fst r"

definition trace_of :: "monitor_state \<times> event list \<times> control \<Rightarrow> event list" where
  "trace_of r = fst (snd r)"

definition ending_of :: "monitor_state \<times> event list \<times> control \<Rightarrow> control" where
  "ending_of r = snd (snd r)"

subsection \<open>Stating the position of the match\<close>

text \<open>Cell \<open>i\<close> is the first cell, in document order, whose trimmed text is the CRN.\<close>

definition first_match :: "cell list \<Rightarrow> nat \<Rightarrow> bool" where
  "first_match cells i =
     (i < length cells \<and> get_text_strip (cells ! i) = TARGET_CRN \<and>
      list_all (\<lambda>c. get_text_strip c \<noteq> TARGET_CRN) (take i cells))"

subsection \<open>Sample pages\<close>

text \<open>
  A timetable row: the CRN cell, fourteen cells up to the language requirement, then the
  limit and the enrolment. \<open>row\<close> ends at the enrolment cell; \<open>page\<close> has one more cell.
\<close>

definition row :: "string \<Rightarrow> string \<Rightarrow> cell list" where
  "row lim_text enrl_text = [[''31322'']] @ replicate 14 [] @ [[lim_text], [enrl_text]]"

definition page :: "string \<Rightarrow> string \<Rightarrow> cell list" where
  "page lim_text enrl_text = row lim_text enrl_text @ [[''IP'']]"

text \<open>
  Two cells carry the CRN. Counted from the first, the limit cell holds \<open>x\<close>; counted
  from the second, the limit is 10 and the enrolment 8, and seventeen cells follow it.
\<close>

definition page_two_matches :: "cell list" where
  "page_two_matches =
     [[''31322''], [''31322'']] @ replicate 13 [] @ [[''x''], [''10''], [''8''], []]"

subsection \<open>Sample configuration and worlds\<close>

definition sample_config :: config where
  "sample_config = \<lparr>EMAIL_ADDRESS = ''me@example.org'',
     FRIEND_EMAILS = [''a@example.org'', ''b@example.org'']\<rparr>"

text \<open>The world in which the alert and the mail succeed and no sleep is cut.\<close>

definition quiet_world :: "cell list outcome \<Rightarrow> world" where
  "quiet_world h = \<lparr>http = h, alert = Exited 0, smtp = Returns (), sleep_interrupted = False\<rparr>"

text \<open>Four failed polls in a row: transport failures and pages without the CRN.\<close>

definition four_failures :: "world list" where
  "four_failures =
     [quiet_world (Raises (RequestException ''timeout'')), quiet_world (Returns []),
      quiet_world (Raises (RequestException ''refused'')), quiet_world (Returns [[''12345'']])]"

text \<open>A full poll (10 of 10), an open poll (8 of 10), then a transport failure.\<close>

definition full_open_failure :: "world list" where
  "full_open_failure =
     [quiet_world (Returns (page ''10'' ''10'')), quiet_world (Returns (page ''10'' ''8'')),
      quiet_world (Raises (RequestException ''timeout''))]"

text \<open>
  Worlds for an open poll (8 of 10) in which the notification goes wrong: \<open>osascript\<close>
  exits with status 1; \<open>osascript\<close> cannot be started; the mail session raises.
\<close>

definition alert_exit_world :: world where
  "alert_exit_world = (quiet_world (Returns (page ''10'' ''8''))) \<lparr>alert := Exited 1\<rparr>"

definition alert_missing_world :: world where
  "alert_missing_world =
     (quiet_world (Returns (page ''10'' ''8''))) \<lparr>alert := Not_started ''osascript''\<rparr>"

definition mail_down_world :: world where
  "mail_down_world =
     (quiet_world (Returns (page ''10'' ''8'')))
       \<lparr>alert := Exited 1, smtp := Raises (SMTPException ''auth'')\<rparr>"

text \<open>
  A page whose limit cell holds 4300 nines and whose enrolment cell holds \<open>-1\<close>: both
  texts parse, and the number of open spots, \<open>10 ^ 4300\<close>, has 4301 digits.
\<close>

definition nines :: string where
  "nines = replicate int_max_str_digits (CHR ''9'')"

definition nines_world :: world where
  "nines_world = quiet_world (Returns (page nines ''-1''))"

subsection \<open>Expressions of the loop, named\<close>

text \<open>The wait computed after a failure, for the incremented failure count \<open>n\<close>.\<close>

definition backoff_wait :: "nat \<Rightarrow> nat" where
  "backoff_wait n = min (CHECK_INTERVAL_SECONDS * 2 ^ n) MAX_BACKOFF_SECONDS"

text \<open>
  The flag is set only when the trace holds a successful poll and the latest one showed an
  open seat.
\<close>

definition flag_inv :: "monitor_state \<Rightarrow> event list \<Rightarrow> bool" where
  "flag_inv s tr = (notified s \<longrightarrow> polls tr \<noteq> [] \<and> seat_open (last (polls tr)))"

section \<open>Properties of the extractor\<close>

lemma py_int_raises: "py_int s = Raises e \<Longrightarrow> e = ValueError"
  by (auto simp: py_int_def Let_def split: list.splits option.splits if_splits)

lemma py_index_raises: "py_index xs i = Raises e \<Longrightarrow> e = IndexError"
  by (auto simp: py_index_def split: if_splits)

lemma read_lim_enrl_raises:
  "read_lim_enrl cells i = Raises e \<Longrightarrow> e = IndexError \<or> e = ValueError"
  by (auto simp: read_lim_enrl_def Let_def split: outcome.splits
      dest: py_int_raises py_index_raises)

lemma read_lim_enrl_Returns:
  "read_lim_enrl cells i = Returns (enrl, lim) \<longleftrightarrow>
   i + 16 < length cells \<and> py_int (get_text_strip (cells ! (i + 16))) = Returns enrl \<and>
   py_int (get_text_strip (cells ! (i + 15))) = Returns lim"
  by (auto simp: read_lim_enrl_def py_index_def Let_def split: outcome.splits)

lemma try_read_returns: "\<exists>r. snd (try_read cells i) = Returns r"
  by (auto simp: try_read_def split: outcome.splits dest: read_lim_enrl_raises)

lemma try_read_Some:
  "snd (try_read cells i) = Returns (Some (enrl, lim)) \<longleftrightarrow>
   read_lim_enrl cells i = Returns (enrl, lim)"
  by (auto simp: try_read_def split: outcome.splits)

lemma try_read_fails:
  assumes "length cells \<le> i + 16
     \<or> (\<exists>e. py_int (get_text_strip (cells ! (i + 15))) = Raises e)
     \<or> (\<exists>e. py_int (get_text_strip (cells ! (i + 16))) = Raises e)"
  shows "\<exists>e. try_read cells i = ([Log WARNING (Found_but_failed TARGET_CRN e)], Returns None)"
proof -
  have "\<not> (\<exists>r. read_lim_enrl cells i = Returns r)"
    using assms by (auto simp: read_lim_enrl_Returns)
  then obtain e where e: "read_lim_enrl cells i = Raises e"
    by (cases "read_lim_enrl cells i") auto
  with read_lim_enrl_raises [OF e] show ?thesis
    by (auto simp: try_read_def)
qed

text \<open>The loop, started at index \<open>k\<close> on the cells \<open>xs\<close> that are left.\<close>

lemma scan_cells_returns: "\<exists>r. snd (scan_cells cells ps) = Returns r"
  by (induction cells ps rule: scan_cells.induct) (auto simp: try_read_returns)

lemma scan_cells_no_match:
  "\<forall>c \<in> set xs. get_text_strip c \<noteq> TARGET_CRN \<Longrightarrow>
   scan_cells cells (enumerate k xs) = ([Log WARNING (Crn_not_found TARGET_CRN)], Returns None)"
  by (induction xs arbitrary: k) auto

lemma scan_cells_first_match:
  "i < length xs \<Longrightarrow> get_text_strip (xs ! i) = TARGET_CRN \<Longrightarrow>
   \<forall>j<i. get_text_strip (xs ! j) \<noteq> TARGET_CRN \<Longrightarrow>
   scan_cells cells (enumerate k xs) = try_read cells (k + i)"
proof (induction xs arbitrary: k i)
  case Nil
  then show ?case by simp
next
  case (Cons x xs)
  show ?case
  proof (cases i)
    case 0
    with Cons.prems show ?thesis by simp
  next
    case (Suc i')
    from Cons.prems Suc have miss: "get_text_strip x \<noteq> TARGET_CRN" by auto
    from Cons.prems Suc have "i' < length xs" "get_text_strip (xs ! i') = TARGET_CRN"
      "\<forall>j<i'. get_text_strip (xs ! j) \<noteq> TARGET_CRN" by auto
    from Cons.IH [OF this]
    have "scan_cells cells (enumerate (Suc k) xs) = try_read cells (Suc k + i')" .
    with miss Suc show ?thesis by simp
  qed
qed

lemma first_match_nth:
  "first_match cells i \<longleftrightarrow>
   i < length cells \<and> get_text_strip (cells ! i) = TARGET_CRN \<and>
   (\<forall>j<i. get_text_strip (cells ! j) \<noteq> TARGET_CRN)"
  by (auto simp: first_match_def list_all_iff all_set_conv_all_nth)

lemma extract_cells_first_match:
  "first_match cells i \<Longrightarrow> extract_cells cells = try_read cells i"
  using scan_cells_first_match [where xs = cells and k = 0 and i = i and cells = cells]
  by (simp add: extract_cells_def first_match_nth)

lemma extract_cells_no_match:
  "\<forall>c \<in> set cells. get_text_strip c \<noteq> TARGET_CRN \<Longrightarrow>
   extract_cells cells = ([Log WARNING (Crn_not_found TARGET_CRN)], Returns None)"
  by (simp add: extract_cells_def scan_cells_no_match)

lemma first_match_cases:
  "(\<forall>c \<in> set cells. get_text_strip c \<noteq> TARGET_CRN) \<or> (\<exists>i. first_match cells i)"
proof (cases "\<exists>i<length cells. get_text_strip (cells ! i) = TARGET_CRN")
  case True
  define P where "P = (\<lambda>i. i < length cells \<and> get_text_strip (cells ! i) = TARGET_CRN)"
  from True have "\<exists>i. P i" by (auto simp: P_def)
  then have "P (LEAST i. P i)" by (rule LeastI_ex)
  moreover have "\<forall>j<(LEAST i. P i). \<not> P j" using not_less_Least by blast
  ultimately have "first_match cells (LEAST i. P i)"
    unfolding first_match_nth P_def by (metis less_trans)
  then show ?thesis by blast
next
  case False
  then show ?thesis by (auto simp: in_set_conv_nth)
qed

lemma extract_cells_Some:
  assumes "snd (extract_cells cells) = Returns (Some (enrl, lim))"
  shows "\<exists>i. first_match cells i \<and> i + 16 < length cells
     \<and> py_int (get_text_strip (cells ! (i + 16))) = Returns enrl
     \<and> py_int (get_text_strip (cells ! (i + 15))) = Returns lim"
proof -
  from first_match_cases [of cells] assms obtain i where i: "first_match cells i"
    by (auto simp: extract_cells_no_match)
  with assms have "read_lim_enrl cells i = Returns (enrl, lim)"
    by (simp add: extract_cells_first_match try_read_Some)
  with i show ?thesis by (auto simp: read_lim_enrl_Returns)
qed

subsection \<open>The trimmed text of a cell has no blank at either end\<close>












section \<open>Properties of one iteration and of a run\<close>

lemma iteration_none:
  assumes "fetch_enrollment (http w) = (tr, Returns None)"
  shows "run_iteration cfg w s =
    (s\<lparr>consecutive_failures := consecutive_failures s + 1\<rparr>,
     tr @ [Log ERROR (Failed_to_fetch (backoff_wait (consecutive_failures s + 1))),
           Sleep (backoff_wait (consecutive_failures s + 1))]
        @ (if sleep_interrupted w then [Log INFO Stopped_by_user] else []),
     if sleep_interrupted w then Break else Goes_on)"
  using assms
  by (simp add: run_iteration_def try_body_def time_sleep_def backoff_wait_def Let_def)

lemma iteration_request_exception:
  assumes "fetch_enrollment (http w) = (tr, Raises (RequestException m))"
  shows "run_iteration cfg w s =
    (s\<lparr>consecutive_failures := consecutive_failures s + 1\<rparr>,
     tr @ [Log ERROR (Request_error m (backoff_wait (consecutive_failures s + 1))),
           Sleep (backoff_wait (consecutive_failures s + 1))],
     if sleep_interrupted w then Propagates KeyboardInterrupt else Goes_on)"
  using assms
  by (simp add: run_iteration_def try_body_def time_sleep_def backoff_wait_def Let_def)

lemma iteration_full:
  assumes "fetch_enrollment (http w) = (tr, Returns (Some (enrl, lim)))" and "\<not> enrl < lim"
  shows "run_iteration cfg w s =
    (s\<lparr>consecutive_failures := 0, notified := False\<rparr>,
     tr @ [Log INFO (Enrolled_line COURSE_NAME enrl lim)]
        @ (if notified s then [Log INFO Full_again] else [])
        @ [Sleep CHECK_INTERVAL_SECONDS],
     if sleep_interrupted w then Propagates KeyboardInterrupt else Goes_on)"
  using assms
  by (cases s) (simp add: run_iteration_def try_body_def time_sleep_def Let_def)

lemma notify_raises:
  "snd (notify cfg w title message) = Raises e \<Longrightarrow> e = KeyboardInterrupt \<or> (\<exists>m. e = OSError m)"
  by (auto simp: notify_def send_email_def is_Exception_def Let_def
      split: alert_result.splits outcome.splits if_splits)

lemma py_str_raises: "py_str i = Raises e \<Longrightarrow> e = ValueError"
  by (auto simp: py_str_def Let_def split: if_splits)

lemma spot_message_raises: "spot_message spots enrl lim = Raises e \<Longrightarrow> e = ValueError"
  by (auto simp: spot_message_def split: outcome.splits dest: py_str_raises)

lemma spot_message_Returns:
  "spot_message spots enrl lim = Returns msg \<longleftrightarrow>
   (\<exists>a b c. py_str spots = Returns a \<and> py_str enrl = Returns b \<and> py_str lim = Returns c
      \<and> msg = a @ '' spot(s) open! Enrolled: '' @ b @ ''/'' @ c)"
  by (auto simp: spot_message_def split: outcome.splits)

lemma iteration_unformattable:
  assumes "fetch_enrollment (http w) = (tr, Returns (Some (enrl, lim)))" and "enrl < lim"
    and "spot_message (lim - enrl) enrl lim = Raises e"
  shows "run_iteration cfg w s =
    (s\<lparr>consecutive_failures := 0\<rparr>, tr @ [Log INFO (Enrolled_line COURSE_NAME enrl lim)],
     Propagates ValueError)"
  using assms spot_message_raises [OF assms(3)]
  by (simp add: run_iteration_def try_body_def Let_def)

lemma iteration_open:
  assumes "fetch_enrollment (http w) = (tr, Returns (Some (enrl, lim)))" and "enrl < lim"
    and "spot_message (lim - enrl) enrl lim = Returns msg"
    and "notify cfg w (''SPOT OPEN: '' @ COURSE_NAME) msg = (trn, r)"
  shows "run_iteration cfg w s =
    (case r of
       Returns u \<Rightarrow>
         (s\<lparr>consecutive_failures := 0, notified := True\<rparr>,
          tr @ [Log INFO (Enrolled_line COURSE_NAME enrl lim), Log INFO (Spot_available msg)]
             @ trn @ [Sleep CHECK_INTERVAL_SECONDS],
          if sleep_interrupted w then Propagates KeyboardInterrupt else Goes_on)
     | Raises e \<Rightarrow>
         (s\<lparr>consecutive_failures := 0\<rparr>,
          tr @ [Log INFO (Enrolled_line COURSE_NAME enrl lim), Log INFO (Spot_available msg)]
             @ trn @ (if e = KeyboardInterrupt then [Log INFO Stopped_by_user] else []),
          if e = KeyboardInterrupt then Break else Propagates e))"
proof (cases r)
  case (Returns u)
  with assms show ?thesis
    by (cases s) (simp add: run_iteration_def try_body_def time_sleep_def Let_def)
next
  case (Raises e)
  with assms(4) have "e = KeyboardInterrupt \<or> (\<exists>m. e = OSError m)"
    using notify_raises [of cfg w "''SPOT OPEN: '' @ COURSE_NAME" msg e] by simp
  with Raises assms show ?thesis
    by (auto simp: run_iteration_def try_body_def Let_def)
qed

lemma notify_calls_append [simp]: "notify_calls (a @ b) = notify_calls a @ notify_calls b"
  by (induction a rule: notify_calls.induct) auto

lemma sleeps_append [simp]: "sleeps (a @ b) = sleeps a @ sleeps b"
  by (induction a rule: sleeps.induct) auto

lemma polls_append [simp]: "polls (a @ b) = polls a @ polls b"
  by (induction a rule: polls.induct) auto

lemma logs_append [simp]: "logs (a @ b) = logs a @ logs b"
  by (induction a rule: logs.induct) auto

lemma try_read_trace:
  "notify_calls (fst (try_read cells i)) = [] \<and> sleeps (fst (try_read cells i)) = []
   \<and> polls (fst (try_read cells i)) = []"
  by (auto simp: try_read_def split: outcome.splits)

lemma scan_cells_trace:
  "notify_calls (fst (scan_cells cells ps)) = [] \<and> sleeps (fst (scan_cells cells ps)) = []
   \<and> polls (fst (scan_cells cells ps)) = []"
  by (induction cells ps rule: scan_cells.induct) (auto simp: try_read_trace)

lemma fetch_trace:
  "notify_calls (fst (fetch_enrollment h)) = [] \<and> sleeps (fst (fetch_enrollment h)) = []
   \<and> polls (fst (fetch_enrollment h)) = []"
  by (cases h) (auto simp: fetch_enrollment_def extract_cells_def scan_cells_trace)

lemma notify_trace:
  "notify_calls (fst (notify cfg w title message)) = [(title, message)]
   \<and> sleeps (fst (notify cfg w title message)) = []
   \<and> polls (fst (notify cfg w title message)) = []"
  by (auto simp: notify_def send_email_def Let_def split: alert_result.splits outcome.splits)

lemma failed_poll_cases:
  "failed_poll w \<longleftrightarrow>
     (\<exists>tr. fetch_enrollment (http w) = (tr, Returns None))
   \<or> (\<exists>tr m. fetch_enrollment (http w) = (tr, Raises (RequestException m)))"
  by (cases "fetch_enrollment (http w)")
     (auto simp: failed_poll_def split: outcome.splits option.splits exn.splits)

lemma failed_iteration:
  assumes "failed_poll w"
  shows "state_of (run_iteration cfg w s) = s\<lparr>consecutive_failures := consecutive_failures s + 1\<rparr>"
    and "sleeps (trace_of (run_iteration cfg w s)) = [backoff_wait (consecutive_failures s + 1)]"
    and "notify_calls (trace_of (run_iteration cfg w s)) = []"
    and "polls (trace_of (run_iteration cfg w s)) = []"
  using assms fetch_trace [of "http w"] unfolding failed_poll_cases
  by (auto simp: iteration_none iteration_request_exception state_of_def trace_of_def)

lemma successful_iteration_polls:
  assumes "snd (fetch_enrollment (http w)) = Returns (Some (enrl, lim))"
  shows "polls (trace_of (run_iteration cfg w s)) = [(enrl, lim)]"
proof -
  obtain tr where f: "fetch_enrollment (http w) = (tr, Returns (Some (enrl, lim)))"
    using assms by (cases "fetch_enrollment (http w)") auto
  have t: "polls tr = []" using fetch_trace [of "http w"] f by simp
  show ?thesis
  proof (cases "enrl < lim")
    case True
    show ?thesis
    proof (cases "spot_message (lim - enrl) enrl lim")
      case (Raises e)
      with t show ?thesis by (simp add: iteration_unformattable [OF f True Raises] trace_of_def)
    next
      case (Returns msg)
      obtain trn r where n: "notify cfg w (''SPOT OPEN: '' @ COURSE_NAME) msg = (trn, r)"
        by (cases "notify cfg w (''SPOT OPEN: '' @ COURSE_NAME) msg")
      have "polls trn = []"
        using notify_trace [of cfg w "''SPOT OPEN: '' @ COURSE_NAME" msg] n by simp
      with t show ?thesis
        by (cases r) (simp_all add: iteration_open [OF f True Returns n] trace_of_def)
    qed
  next
    case False
    with t show ?thesis by (simp add: iteration_full [OF f False] trace_of_def)
  qed
qed

lemma unsuccessful_iteration_polls:
  assumes "\<forall>p. snd (fetch_enrollment (http w)) \<noteq> Returns (Some p)"
  shows "polls (trace_of (run_iteration cfg w s)) = []"
proof -
  obtain tr r where f: "fetch_enrollment (http w) = (tr, r)"
    by (cases "fetch_enrollment (http w)")
  have t: "polls tr = []" using fetch_trace [of "http w"] f by simp
  show ?thesis
  proof (cases r)
    case (Returns v)
    with assms f have "v = None" by (cases v) auto
    with f Returns t show ?thesis by (simp add: iteration_none trace_of_def)
  next
    case (Raises e)
    with f t show ?thesis
      by (cases e) (simp_all add: run_iteration_def try_body_def time_sleep_def trace_of_def Let_def)
  qed
qed

lemma iteration_raises_other:
  assumes "fetch_enrollment (http w) = (tr, Raises e)" and "\<forall>m. e \<noteq> RequestException m"
  shows "run_iteration cfg w s =
    (s, tr @ (if e = KeyboardInterrupt then [Log INFO Stopped_by_user] else []),
     if e = KeyboardInterrupt then Break else Propagates e)"
  using assms by (cases e) (simp_all add: run_iteration_def try_body_def)

lemma run_loop_goes_on:
  assumes "ending_of (run_iteration cfg w s) = Goes_on"
  shows "run_loop cfg (w # ws) s =
    (state_of (run_loop cfg ws (state_of (run_iteration cfg w s))),
     trace_of (run_iteration cfg w s) @ trace_of (run_loop cfg ws (state_of (run_iteration cfg w s))),
     ending_of (run_loop cfg ws (state_of (run_iteration cfg w s))))"
  using assms
  by (cases "run_iteration cfg w s")
     (auto simp: state_of_def trace_of_def ending_of_def split: prod.splits)

lemma run_loop_stops:
  assumes "ending_of (run_iteration cfg w s) \<noteq> Goes_on"
  shows "run_loop cfg (w # ws) s = run_iteration cfg w s"
  using assms
  by (cases "run_iteration cfg w s")
     (auto simp: ending_of_def split: prod.splits control.splits)

lemma failed_iteration_ending:
  assumes "failed_poll w"
  shows "ending_of (run_iteration cfg w s) = Goes_on \<longleftrightarrow> \<not> sleep_interrupted w"
  using assms unfolding failed_poll_cases
  by (auto simp: iteration_none iteration_request_exception ending_of_def)

lemma backoff_wait_mono: "i \<le> j \<Longrightarrow> backoff_wait i \<le> backoff_wait j"
proof -
  assume "i \<le> j"
  then have "(2::nat) ^ i \<le> 2 ^ j" by (simp add: power_increasing)
  then have "CHECK_INTERVAL_SECONDS * 2 ^ i \<le> CHECK_INTERVAL_SECONDS * 2 ^ j"
    by (rule mult_le_mono2)
  then show ?thesis unfolding backoff_wait_def by (rule min.mono) simp
qed

lemma backoff_wait_le: "backoff_wait n \<le> MAX_BACKOFF_SECONDS"
  by (simp add: backoff_wait_def)

lemma map_upt_shift: "map f [1..<Suc (Suc n)] = f 1 # map (\<lambda>k. f (Suc k)) [1..<Suc n]"
proof -
  have "[1..<Suc (Suc n)] = 1 # map Suc [1..<Suc n]"
    by (simp add: upt_conv_Cons map_Suc_upt del: upt_Suc)
  then show ?thesis by (simp add: comp_def del: upt_Suc)
qed

lemma failed_run:
  assumes "\<forall>w \<in> set ws. failed_poll w"
  shows "\<exists>n\<le>length ws.
     sleeps (trace_of (run_loop cfg ws s))
       = map (\<lambda>k. backoff_wait (consecutive_failures s + k)) [1..<Suc n]
     \<and> consecutive_failures (state_of (run_loop cfg ws s)) = consecutive_failures s + n
     \<and> ((\<forall>w \<in> set ws. \<not> sleep_interrupted w) \<longrightarrow> n = length ws)"
  using assms
proof (induction ws arbitrary: s)
  case Nil
  show ?case by (simp add: trace_of_def state_of_def)
next
  case (Cons w ws)
  from Cons.prems have fw: "failed_poll w" and rest: "\<forall>w \<in> set ws. failed_poll w" by auto
  let ?s1 = "state_of (run_iteration cfg w s)"
  have s1: "consecutive_failures ?s1 = consecutive_failures s + 1"
    by (simp add: failed_iteration(1) [OF fw])
  have sl: "sleeps (trace_of (run_iteration cfg w s)) = [backoff_wait (consecutive_failures s + 1)]"
    by (rule failed_iteration(2) [OF fw])
  show ?case
  proof (cases "sleep_interrupted w")
    case True
    then have "ending_of (run_iteration cfg w s) \<noteq> Goes_on"
      by (simp add: failed_iteration_ending [OF fw])
    then have "run_loop cfg (w # ws) s = run_iteration cfg w s" by (rule run_loop_stops)
    with s1 sl True show ?thesis by (intro exI [of _ 1]) simp
  next
    case False
    then have go: "ending_of (run_iteration cfg w s) = Goes_on"
      by (simp add: failed_iteration_ending [OF fw])
    from Cons.IH [OF rest, of ?s1] obtain n where n: "n \<le> length ws"
      "sleeps (trace_of (run_loop cfg ws ?s1))
         = map (\<lambda>k. backoff_wait (consecutive_failures ?s1 + k)) [1..<Suc n]"
      "consecutive_failures (state_of (run_loop cfg ws ?s1)) = consecutive_failures ?s1 + n"
      "(\<forall>w \<in> set ws. \<not> sleep_interrupted w) \<longrightarrow> n = length ws" by blast
    note rl = run_loop_goes_on [OF go, of ws]
    have tr: "trace_of (run_loop cfg (w # ws) s)
        = trace_of (run_iteration cfg w s) @ trace_of (run_loop cfg ws ?s1)"
      unfolding rl by (simp add: trace_of_def)
    have st: "state_of (run_loop cfg (w # ws) s) = state_of (run_loop cfg ws ?s1)"
      unfolding rl by (simp add: state_of_def)
    have "sleeps (trace_of (run_loop cfg (w # ws) s))
        = backoff_wait (consecutive_failures s + 1)
          # map (\<lambda>k. backoff_wait (consecutive_failures s + Suc k)) [1..<Suc n]"
      unfolding tr by (simp add: sl n(2) s1 del: upt_Suc)
    also have "\<dots> = map (\<lambda>k. backoff_wait (consecutive_failures s + k)) [1..<Suc (Suc n)]"
      by (simp only: map_upt_shift [of "\<lambda>k. backoff_wait (consecutive_failures s + k)"])
    finally have A: "sleeps (trace_of (run_loop cfg (w # ws) s))
        = map (\<lambda>k. backoff_wait (consecutive_failures s + k)) [1..<Suc (Suc n)]" .
    have B: "consecutive_failures (state_of (run_loop cfg (w # ws) s))
        = consecutive_failures s + Suc n"
      unfolding st using n(3) s1 by simp
    from A B n(1) n(4) False show ?thesis by (intro exI [of _ "Suc n"]) simp
  qed
qed

lemma sorted_map_mono_upt:
  "(\<And>i j. i \<le> j \<Longrightarrow> f i \<le> (f j :: nat)) \<Longrightarrow> sorted (map f [a..<b])"
  by (simp add: sorted_iff_nth_mono)

lemma iteration_flag_inv:
  assumes "flag_inv s tr0"
  shows "flag_inv (state_of (run_iteration cfg w s)) (tr0 @ trace_of (run_iteration cfg w s))"
proof -
  obtain tr r where f: "fetch_enrollment (http w) = (tr, r)"
    by (cases "fetch_enrollment (http w)")
  have t: "polls tr = []" using fetch_trace [of "http w"] f by simp
  show ?thesis
  proof (cases r)
    case (Raises e)
    show ?thesis
    proof (cases "\<exists>m. e = RequestException m")
      case True
      then obtain m where "e = RequestException m" by blast
      with f Raises assms t show ?thesis
        by (simp add: iteration_request_exception state_of_def trace_of_def flag_inv_def)
    next
      case False
      with f Raises have "run_iteration cfg w s =
          (s, tr @ (if e = KeyboardInterrupt then [Log INFO Stopped_by_user] else []),
           if e = KeyboardInterrupt then Break else Propagates e)"
        by (simp add: iteration_raises_other)
      with assms t show ?thesis
        by (simp add: state_of_def trace_of_def flag_inv_def)
    qed
  next
    case (Returns v)
    show ?thesis
    proof (cases v)
      case None
      with f Returns assms t show ?thesis
        by (simp add: iteration_none state_of_def trace_of_def flag_inv_def)
    next
      case (Some p)
      obtain enrl lim where p: "p = (enrl, lim)" by (cases p)
      from f Returns Some p have f': "fetch_enrollment (http w) = (tr, Returns (Some (enrl, lim)))"
        by simp
      then have "snd (fetch_enrollment (http w)) = Returns (Some (enrl, lim))" by simp
      from successful_iteration_polls [OF this]
      have pl: "polls (trace_of (run_iteration cfg w s)) = [(enrl, lim)]" .
      show ?thesis
      proof (cases "enrl < lim")
        case True
        with pl show ?thesis by (simp add: flag_inv_def seat_open_def)
      next
        case False
        then show ?thesis
          by (simp add: iteration_full [OF f' False] state_of_def flag_inv_def)
      qed
    qed
  qed
qed

lemma run_loop_flag_inv:
  "flag_inv s tr0 \<Longrightarrow> flag_inv (state_of (run_loop cfg ws s)) (tr0 @ trace_of (run_loop cfg ws s))"
proof (induction ws arbitrary: s tr0)
  case Nil
  then show ?case by (simp add: state_of_def trace_of_def)
next
  case (Cons w ws)
  let ?s1 = "state_of (run_iteration cfg w s)"
  let ?t1 = "trace_of (run_iteration cfg w s)"
  from iteration_flag_inv [OF Cons.prems] have i1: "flag_inv ?s1 (tr0 @ ?t1)" .
  show ?case
  proof (cases "ending_of (run_iteration cfg w s) = Goes_on")
    case True
    note rl = run_loop_goes_on [OF True, of ws]
    from Cons.IH [OF i1] show ?thesis
      unfolding rl by (simp add: state_of_def trace_of_def)
  next
    case False
    from i1 show ?thesis by (simp only: run_loop_stops [OF False])
  qed
qed

lemma run_flag_inv: "flag_inv (state_of (run cfg ws)) (trace_of (run cfg ws))"
proof -
  let ?start = "[Log INFO (Starting_monitor COURSE_NAME TARGET_CRN),
                 Log INFO (Checking_every CHECK_INTERVAL_SECONDS)]"
  have "flag_inv initial_state ?start" by (simp add: flag_inv_def initial_state_def)
  from run_loop_flag_inv [OF this, of cfg ws] show ?thesis
    by (cases "run_loop cfg ws initial_state") (simp add: run_def state_of_def trace_of_def)
qed

subsection \<open>Formatting the numbers read from a page\<close>

lemma str_nat_length_le: "n < 10 ^ k \<Longrightarrow> length (str_nat n) \<le> max k 1"
proof (induction n arbitrary: k rule: str_nat.induct)
  case (1 n)
  show ?case
  proof (cases "n < 10")
    case True
    then show ?thesis by (simp add: str_nat.simps [of n])
  next
    case False
    with "1.prems" obtain k' where k: "k = Suc k'" by (cases k) auto
    from "1.prems" k have "n div 10 < 10 ^ k'" by (simp add: div_less_iff_less_mult mult.commute)
    from "1.IH" [OF False this] have "length (str_nat (n div 10)) \<le> max k' 1" .
    moreover from False "1.prems" k have "k' \<ge> 1" by (cases k') auto
    ultimately show ?thesis using False k by (simp add: str_nat.simps [of n])
  qed
qed

lemma digit_val_le: "is_digit c \<Longrightarrow> digit_val c \<le> 9"
  unfolding is_digit_def digit_val_def Let_def by linarith

lemma scan_digits_bound:
  "scan_digits prev acc k s = Some (v, n) \<Longrightarrow> acc < 10 ^ k \<Longrightarrow> v < 10 ^ n"
proof (induction prev acc k s rule: scan_digits.induct)
  case (1 prev acc k)
  then show ?case by (auto split: if_splits)
next
  case (2 prev acc k c cs)
  show ?case
  proof (cases "is_digit c")
    case True
    with "2.prems" have r: "scan_digits True (10 * acc + digit_val c) (Suc k) cs = Some (v, n)"
      by simp
    from "2.prems"(2) digit_val_le [OF True] have "10 * acc + digit_val c < 10 ^ Suc k" by simp
    from "2.IH"(1) [OF True r this] show ?thesis .
  next
    case False
    with "2.prems" have u: "c = CHR ''_'' \<and> prev" and r: "scan_digits False acc k cs = Some (v, n)"
      by (auto split: if_splits)
    from "2.IH"(2) [OF False u r "2.prems"(2)] show ?thesis .
  qed
qed

lemma py_int_scan:
  "py_int s = Returns i \<Longrightarrow>
   \<exists>body v n. scan_digits False 0 0 body = Some (v, n) \<and> n \<le> int_max_str_digits \<and> \<bar>i\<bar> = int v"
  by (fastforce simp: py_int_def Let_def not_less simp del: scan_digits.simps
      split: list.splits option.splits if_splits)

lemma py_int_formats:
  assumes "py_int s = Returns i"
  shows "\<exists>t. py_str i = Returns t"
proof -
  from py_int_scan [OF assms] obtain body v n
    where sc: "scan_digits False 0 0 body = Some (v, n)"
      and n: "n \<le> int_max_str_digits" and v: "\<bar>i\<bar> = int v" by blast
  from scan_digits_bound [OF sc] have "v < 10 ^ n" by simp
  from str_nat_length_le [OF this] n
  have "length (str_nat v) \<le> int_max_str_digits" by (simp add: int_max_str_digits_def)
  moreover from v have "nat \<bar>i\<bar> = v" by simp
  ultimately show ?thesis by (simp add: py_str_def Let_def)
qed


lemma str_nat_pow10: "length (str_nat (10 ^ n)) = Suc n"
proof (induction n)
  case 0
  show ?case by (simp add: str_nat.simps [of "Suc 0"])
next
  case (Suc n)
  have "\<not> (10::nat) ^ Suc n < 10" by simp
  then show ?case using Suc by (simp add: str_nat.simps [of "10 ^ Suc n"] del: power_Suc) (simp)
qed

lemma scan_digits_nines:
  "scan_digits prev acc k (replicate (Suc n) (CHR ''9''))
     = Some (acc * 10 ^ Suc n + (10 ^ Suc n - 1), k + Suc n)"
proof (induction n arbitrary: prev acc k)
  case 0
  show ?case by (simp add: is_digit_def digit_val_def)
next
  case (Suc n)
  have "scan_digits prev acc k (replicate (Suc (Suc n)) (CHR ''9''))
      = scan_digits True (10 * acc + 9) (Suc k) (replicate (Suc n) (CHR ''9''))"
    by (simp add: is_digit_def digit_val_def)
  also have "\<dots> = Some ((10 * acc + 9) * 10 ^ Suc n + (10 ^ Suc n - 1), Suc k + Suc n)"
    by (rule Suc.IH)
  also have "(10 * acc + 9) * 10 ^ Suc n + (10 ^ Suc n - 1)
      = acc * 10 ^ Suc (Suc n) + (10 ^ Suc (Suc n) - (1::nat))"
    by (simp add: algebra_simps)
  finally show ?case by simp
qed


lemma fetch_pair_formats:
  assumes "snd (fetch_enrollment h) = Returns (Some (enrl, lim))"
  shows "\<exists>a b. py_str enrl = Returns a \<and> py_str lim = Returns b"
proof (cases h)
  case (Returns cells)
  with assms have "snd (extract_cells cells) = Returns (Some (enrl, lim))"
    by (simp add: fetch_enrollment_def)
  from extract_cells_Some [OF this] show ?thesis by (blast dest: py_int_formats)
next
  case (Raises e)
  with assms show ?thesis by (simp add: fetch_enrollment_def)
qed

lemma notify_called:
  assumes "notify_calls (trace_of (run_iteration cfg w s)) \<noteq> []"
  shows "\<exists>tr enrl lim msg. fetch_enrollment (http w) = (tr, Returns (Some (enrl, lim)))
     \<and> enrl < lim \<and> spot_message (lim - enrl) enrl lim = Returns msg"
proof -
  obtain tr r where f: "fetch_enrollment (http w) = (tr, r)"
    by (cases "fetch_enrollment (http w)")
  have t: "notify_calls tr = []" using fetch_trace [of "http w"] f by simp
  show ?thesis
  proof (cases r)
    case (Raises e)
    show ?thesis
    proof (cases "\<exists>m. e = RequestException m")
      case True
      then obtain m where "e = RequestException m" by blast
      with f Raises t assms show ?thesis
        by (simp add: iteration_request_exception trace_of_def)
    next
      case False
      with f Raises have "run_iteration cfg w s =
          (s, tr @ (if e = KeyboardInterrupt then [Log INFO Stopped_by_user] else []),
           if e = KeyboardInterrupt then Break else Propagates e)"
        by (simp add: iteration_raises_other)
      with t assms show ?thesis by (auto simp: trace_of_def split: if_splits)
    qed
  next
    case (Returns v)
    show ?thesis
    proof (cases v)
      case None
      with f Returns t assms show ?thesis
        by (auto simp: iteration_none trace_of_def split: if_splits)
    next
      case (Some p)
      obtain enrl lim where p: "p = (enrl, lim)" by (cases p)
      from f Returns Some p have f': "fetch_enrollment (http w) = (tr, Returns (Some (enrl, lim)))"
        by simp
      show ?thesis
      proof (cases "enrl < lim")
        case False
        with t assms show ?thesis
          by (auto simp: iteration_full [OF f' False] trace_of_def split: if_splits)
      next
        case True
        show ?thesis
        proof (cases "spot_message (lim - enrl) enrl lim")
          case (Raises e)
          with t assms show ?thesis
            by (simp add: iteration_unformattable [OF f' True Raises] trace_of_def)
        next
          case (Returns msg)
          with f' True show ?thesis by blast
        qed
      qed
    qed
  qed
qed

subsection \<open>The page with a limit of 4300 nines\<close>

lemma page_cells:
  "length (page l e) = 18" "page l e ! 0 = [''31322'']" "page l e ! 15 = [l]" "page l e ! 16 = [e]"
  by (simp_all add: page_def row_def nth_append)

lemma page_first_match: "first_match (page l e) 0"
proof -
  have "get_text_strip [''31322''] = TARGET_CRN" by code_simp
  then show ?thesis by (simp add: first_match_def page_cells)
qed

lemma nines_not_empty: "nines \<noteq> []" "hd nines = CHR ''9''" "last nines = CHR ''9''"
  by (simp_all add: nines_def int_max_str_digits_def)

lemma get_text_strip_nines: "get_text_strip [nines] = nines"
proof -
  have sp: "\<not> py_isspace (CHR ''9'')" by (simp add: py_isspace_def)
  have "dropWhile py_isspace nines = nines"
    using sp by (simp add: nines_def)
  moreover have "rev nines = nines" by (simp add: nines_def)
  ultimately have "py_strip nines = nines" by (simp add: py_strip_def)
  with nines_not_empty(1) show ?thesis by (simp add: get_text_strip_def)
qed

lemma py_int_nines: "py_int nines = Returns (10 ^ int_max_str_digits - 1)"
proof -
  obtain n where n: "int_max_str_digits = Suc n" by (simp add: int_max_str_digits_def)
  have sp: "\<not> int_isspace (CHR ''9'')" by (simp add: int_isspace_def)
  have "dropWhile int_isspace nines = nines"
    using sp by (simp add: nines_def)
  moreover have "rev nines = nines" by (simp add: nines_def)
  ultimately have st: "int_strip nines = CHR ''9'' # replicate n (CHR ''9'')"
    by (simp add: int_strip_def nines_def n)
  have sc: "scan_digits False 0 0 (CHR ''9'' # replicate n (CHR ''9''))
      = Some (10 ^ Suc n - 1, Suc n)"
    using scan_digits_nines [of False 0 0 n] by (simp del: scan_digits.simps power_Suc)
  have "int (10 ^ Suc n - 1) = 10 ^ Suc n - 1"
    by (simp add: of_nat_diff del: power_Suc)
  with st sc show ?thesis
    unfolding py_int_def n by (simp del: scan_digits.simps power_Suc)
qed

lemma py_str_pow10: "py_str (10 ^ int_max_str_digits) = Raises ValueError"
proof -
  have "nat \<bar>10 ^ int_max_str_digits :: int\<bar> = 10 ^ int_max_str_digits"
    by (simp add: nat_power_eq)
  then have "length (str_nat (nat \<bar>10 ^ int_max_str_digits :: int\<bar>)) = Suc int_max_str_digits"
    by (simp only: str_nat_pow10)
  then show ?thesis unfolding py_str_def Let_def by simp
qed

lemma fetch_nines:
  "fetch_enrollment (http nines_world) = ([], Returns (Some (- 1, 10 ^ int_max_str_digits - 1)))"
proof -
  have e: "py_int (get_text_strip [''-1'']) = Returns (- 1)" by code_simp
  have "read_lim_enrl (page nines ''-1'') 0 = Returns (- 1, 10 ^ int_max_str_digits - 1)"
    by (simp add: read_lim_enrl_Returns page_cells get_text_strip_nines py_int_nines e)
  then have "try_read (page nines ''-1'') 0 = ([], Returns (Some (- 1, 10 ^ int_max_str_digits - 1)))"
    by (simp add: try_read_def)
  then show ?thesis
    by (simp add: nines_world_def quiet_world_def fetch_enrollment_def
        extract_cells_first_match [OF page_first_match])
qed

lemma iteration_nines:
  "run_iteration cfg nines_world s =
     (s\<lparr>consecutive_failures := 0\<rparr>,
      [Log INFO (Enrolled_line COURSE_NAME (- 1) (10 ^ int_max_str_digits - 1))],
      Propagates ValueError)"
proof -
  have lt: "(- 1 :: int) < 10 ^ int_max_str_digits - 1"
  proof -
    have "(1::int) \<le> 10 ^ int_max_str_digits" by (rule one_le_power) simp
    then show ?thesis by simp
  qed
  have "spot_message (10 ^ int_max_str_digits - 1 - (- 1)) (- 1) (10 ^ int_max_str_digits - 1)
      = Raises ValueError"
    by (simp add: spot_message_def py_str_pow10)
  from iteration_unformattable [OF fetch_nines lt this, of cfg s] show ?thesis by simp
qed

section \<open>The claims about the extractor\<close>

text \<open>
  C2, as amended. When the first cell whose trimmed text is the CRN is followed by at
  least 17 cells, and the cells at offsets +15 and +16 from it parse as non-negative
  integers, the extractor returns exactly the pair (enrolled, limit), enrolled read at
  offset +16 and limit at offset +15.
\<close>

theorem first_match_yields_pair:
  assumes "first_match cells i"
    and "17 \<le> length cells - Suc i"
    and "py_int (get_text_strip (cells ! (i + 16))) = Returns enrl" and "0 \<le> enrl"
    and "py_int (get_text_strip (cells ! (i + 15))) = Returns lim" and "0 \<le> lim"
  shows "snd (extract_cells cells) = Returns (Some (enrl, lim))"
proof -
  from assms(2) have "i + 16 < length cells" by simp
  with assms(3,5) have "read_lim_enrl cells i = Returns (enrl, lim)"
    by (simp add: read_lim_enrl_Returns)
  then have "snd (try_read cells i) = Returns (Some (enrl, lim))"
    by (simp add: try_read_Some)
  with assms(1) show ?thesis by (simp add: extract_cells_first_match)
qed

text \<open>C2, witness: the page with limit 10 and enrolment 8.\<close>

theorem first_match_yields_pair_witness:
  "first_match (page ''10'' ''8'') 0 \<and> 17 \<le> length (page ''10'' ''8'') - Suc 0
   \<and> py_int (get_text_strip (page ''10'' ''8'' ! (0 + 16))) = Returns 8
   \<and> py_int (get_text_strip (page ''10'' ''8'' ! (0 + 15))) = Returns 10
   \<and> snd (extract_cells (page ''10'' ''8'')) = Returns (Some (8, 10))"
proof -
  have m: "first_match (page ''10'' ''8'') 0" by code_simp
  have n: "17 \<le> length (page ''10'' ''8'') - Suc 0" by code_simp
  have e: "py_int (get_text_strip (page ''10'' ''8'' ! (0 + 16))) = Returns 8" by code_simp
  have l: "py_int (get_text_strip (page ''10'' ''8'' ! (0 + 15))) = Returns 10" by code_simp
  from first_match_yields_pair [OF m n e _ l] m n e l show ?thesis by simp
qed

text \<open>
  C2, counterexample to the claim as stated for some matching cell: on
  \<open>page_two_matches\<close> the second CRN cell has 17 cells after it and the values 10 and 8 at
  its offsets, yet the extractor returns \<open>None\<close>, since the first CRN cell decides.
\<close>

theorem later_match_is_not_read:
  "get_text_strip (page_two_matches ! 1) = TARGET_CRN
   \<and> 17 \<le> length page_two_matches - Suc 1
   \<and> py_int (get_text_strip (page_two_matches ! (1 + 16))) = Returns 8
   \<and> py_int (get_text_strip (page_two_matches ! (1 + 15))) = Returns 10
   \<and> snd (extract_cells page_two_matches) = Returns None"
  by code_simp

text \<open>
  C4, as amended. On every cell sequence the extractor returns and does not raise. With
  no cell whose trimmed text is the CRN it returns \<open>None\<close>. When the first such cell has
  fewer than 16 cells after it, or one of the two offset cells fails to parse, it returns
  \<open>None\<close>. A pair is returned only when both offset cells of the first match exist and
  parse, to the two values of the pair.
\<close>

theorem extractor_total_and_absent:
  "(\<exists>r. snd (extract_cells cells) = Returns r)
   \<and> ((\<forall>c \<in> set cells. get_text_strip c \<noteq> TARGET_CRN)
        \<longrightarrow> snd (extract_cells cells) = Returns None)
   \<and> (\<forall>i. first_match cells i
          \<and> (length cells - Suc i < 16
              \<or> (\<exists>e. py_int (get_text_strip (cells ! (i + 15))) = Raises e)
              \<or> (\<exists>e. py_int (get_text_strip (cells ! (i + 16))) = Raises e))
        \<longrightarrow> snd (extract_cells cells) = Returns None)
   \<and> (\<forall>enrl lim. snd (extract_cells cells) = Returns (Some (enrl, lim))
        \<longrightarrow> (\<exists>i. first_match cells i \<and> i + 16 < length cells
              \<and> py_int (get_text_strip (cells ! (i + 16))) = Returns enrl
              \<and> py_int (get_text_strip (cells ! (i + 15))) = Returns lim))"
proof (intro conjI allI impI)
  show "\<exists>r. snd (extract_cells cells) = Returns r"
    unfolding extract_cells_def by (rule scan_cells_returns)
next
  assume "\<forall>c \<in> set cells. get_text_strip c \<noteq> TARGET_CRN"
  then show "snd (extract_cells cells) = Returns None"
    by (simp add: extract_cells_no_match)
next
  fix i
  assume a: "first_match cells i
     \<and> (length cells - Suc i < 16
         \<or> (\<exists>e. py_int (get_text_strip (cells ! (i + 15))) = Raises e)
         \<or> (\<exists>e. py_int (get_text_strip (cells ! (i + 16))) = Raises e))"
  then have "length cells \<le> i + 16
     \<or> (\<exists>e. py_int (get_text_strip (cells ! (i + 15))) = Raises e)
     \<or> (\<exists>e. py_int (get_text_strip (cells ! (i + 16))) = Raises e)"
    by auto
  from try_read_fails [OF this] a show "snd (extract_cells cells) = Returns None"
    by (auto simp: extract_cells_first_match)
next
  fix enrl lim
  assume "snd (extract_cells cells) = Returns (Some (enrl, lim))"
  then show "\<exists>i. first_match cells i \<and> i + 16 < length cells
     \<and> py_int (get_text_strip (cells ! (i + 16))) = Returns enrl
     \<and> py_int (get_text_strip (cells ! (i + 15))) = Returns lim"
    by (rule extract_cells_Some)
qed

text \<open>
  C4, witness: a page without the CRN, a page whose first match has an unparsable limit
  cell, a page that ends at the CRN cell, and a row that yields a pair.
\<close>

theorem extractor_total_and_absent_witness:
  "list_all (\<lambda>c. get_text_strip c \<noteq> TARGET_CRN) [[''12345''], []]
   \<and> snd (extract_cells [[''12345''], []]) = Returns None
   \<and> first_match page_two_matches 0
   \<and> py_int (get_text_strip (page_two_matches ! (0 + 15))) = Raises ValueError
   \<and> snd (extract_cells page_two_matches) = Returns None
   \<and> first_match [[], [''31322'']] 1 \<and> length [[], [''31322'']] - Suc 1 < 16
   \<and> snd (extract_cells [[], [''31322'']]) = Returns None
   \<and> snd (extract_cells (row ''10'' ''8'')) = Returns (Some (8, 10))
   \<and> (\<exists>i. first_match (row ''10'' ''8'') i \<and> i + 16 < length (row ''10'' ''8'')
          \<and> py_int (get_text_strip (row ''10'' ''8'' ! (i + 16))) = Returns 8
          \<and> py_int (get_text_strip (row ''10'' ''8'' ! (i + 15))) = Returns 10)"
proof -
  have a': "list_all (\<lambda>c. get_text_strip c \<noteq> TARGET_CRN) [[''12345''], []]" by code_simp
  then have a: "\<forall>c \<in> set [[''12345''], []]. get_text_strip c \<noteq> TARGET_CRN"
    by (simp only: list_all_iff)
  have b: "first_match page_two_matches 0" by code_simp
  have c: "py_int (get_text_strip (page_two_matches ! (0 + 15))) = Raises ValueError"
    by code_simp
  have d: "first_match [[], [''31322'']] 1" by code_simp
  have e: "length [[], [''31322'']] - Suc 1 < 16" by simp
  have f: "snd (extract_cells (row ''10'' ''8'')) = Returns (Some (8, 10))" by code_simp
  from extractor_total_and_absent [of "[[''12345''], []]"] a
  have 1: "snd (extract_cells [[''12345''], []]) = Returns None" by blast
  from extractor_total_and_absent [of page_two_matches] b c
  have 2: "snd (extract_cells page_two_matches) = Returns None" by blast
  from extractor_total_and_absent [of "[[], [''31322'']]"] d e
  have 3: "snd (extract_cells [[], [''31322'']]) = Returns None" by blast
  from extractor_total_and_absent [of "row ''10'' ''8''"] f
  have 4: "\<exists>i. first_match (row ''10'' ''8'') i \<and> i + 16 < length (row ''10'' ''8'')
          \<and> py_int (get_text_strip (row ''10'' ''8'' ! (i + 16))) = Returns 8
          \<and> py_int (get_text_strip (row ''10'' ''8'' ! (i + 15))) = Returns 10" by blast
  from a' b c d e f 1 2 3 4 show ?thesis by blast
qed

text \<open>
  C4, counterexample to the bound of 17: in \<open>row ''10'' ''8''\<close> the CRN cell has 16 cells
  after it, fewer than 17, and the extractor returns the pair (8, 10).
\<close>

theorem sixteen_cells_after_match_suffice:
  "get_text_strip (row ''10'' ''8'' ! 0) = TARGET_CRN
   \<and> length (row ''10'' ''8'') - Suc 0 < 17
   \<and> snd (extract_cells (row ''10'' ''8'')) = Returns (Some (8, 10))"
  by code_simp




text \<open>
  C10. The extractor decides at the first cell whose trimmed text is the CRN: its result
  is that of the \<open>try\<close> statement at that cell, and when the offset cells of that first
  match are missing or fail to parse it logs the failure and returns \<open>None\<close>, whatever
  the cells after it hold.
\<close>

theorem first_match_decides:
  assumes "first_match cells i"
  shows "extract_cells cells = try_read cells i
     \<and> (length cells \<le> i + 16
          \<or> (\<exists>e. py_int (get_text_strip (cells ! (i + 15))) = Raises e)
          \<or> (\<exists>e. py_int (get_text_strip (cells ! (i + 16))) = Raises e)
        \<longrightarrow> (\<exists>e. extract_cells cells
                    = ([Log WARNING (Found_but_failed TARGET_CRN e)], Returns None)))"
  using assms try_read_fails [of cells i] by (simp add: extract_cells_first_match)

text \<open>
  C10, witness: on \<open>page_two_matches\<close> the first match has an unparsable limit cell and
  the second match has valid offset cells; the result is \<open>None\<close>.
\<close>

theorem first_match_decides_witness:
  "first_match page_two_matches 0
   \<and> py_int (get_text_strip (page_two_matches ! (0 + 15))) = Raises ValueError
   \<and> get_text_strip (page_two_matches ! 1) = TARGET_CRN
   \<and> read_lim_enrl page_two_matches 1 = Returns (8, 10)
   \<and> (\<exists>e. extract_cells page_two_matches
            = ([Log WARNING (Found_but_failed TARGET_CRN e)], Returns None))"
proof -
  have m: "first_match page_two_matches 0" by code_simp
  have l: "py_int (get_text_strip (page_two_matches ! (0 + 15))) = Raises ValueError"
    by code_simp
  have s: "get_text_strip (page_two_matches ! 1) = TARGET_CRN" by code_simp
  have r: "read_lim_enrl page_two_matches 1 = Returns (8, 10)" by code_simp
  from first_match_decides [OF m] l
  have "\<exists>e. extract_cells page_two_matches
            = ([Log WARNING (Found_but_failed TARGET_CRN e)], Returns None)" by blast
  with m l s r show ?thesis by blast
qed

section \<open>The claims about the poll loop\<close>

text \<open>
  C1, as amended. In a poll whose fetch returns the pair (enrolled, limit) with enrolled
  below limit, and whose number of open spots \<open>limit - enrolled\<close> can be formatted (it has
  at most 4300 digits), the loop calls \<open>notify\<close> exactly once, whatever the state and its
  \<open>notified\<close> flag hold, logs the open seat, and the message reports \<open>limit - enrolled\<close>
  open spots. The two numbers read from the page can always be formatted.
\<close>

theorem open_seat_notifies_once:
  assumes "snd (fetch_enrollment (http w)) = Returns (Some (enrl, lim))" and "enrl < lim"
    and "py_str (lim - enrl) = Returns spots_text"
  shows "\<exists>enrl_text lim_text.
       py_str enrl = Returns enrl_text \<and> py_str lim = Returns lim_text
     \<and> notify_calls (trace_of (run_iteration cfg w s))
         = [(''SPOT OPEN: '' @ COURSE_NAME,
             spots_text @ '' spot(s) open! Enrolled: '' @ enrl_text @ ''/'' @ lim_text)]
     \<and> (INFO, Spot_available
           (spots_text @ '' spot(s) open! Enrolled: '' @ enrl_text @ ''/'' @ lim_text))
         \<in> set (logs (trace_of (run_iteration cfg w s)))"
proof -
  obtain tr where f: "fetch_enrollment (http w) = (tr, Returns (Some (enrl, lim)))"
    using assms(1) by (cases "fetch_enrollment (http w)") auto
  have t: "notify_calls tr = []" using fetch_trace [of "http w"] f by simp
  from fetch_pair_formats [OF assms(1)] obtain enrl_text lim_text
    where e: "py_str enrl = Returns enrl_text" and l: "py_str lim = Returns lim_text" by blast
  let ?msg = "spots_text @ '' spot(s) open! Enrolled: '' @ enrl_text @ ''/'' @ lim_text"
  from assms(3) e l have m: "spot_message (lim - enrl) enrl lim = Returns ?msg"
    by (simp add: spot_message_def)
  obtain trn r where n: "notify cfg w (''SPOT OPEN: '' @ COURSE_NAME) ?msg = (trn, r)"
    by (cases "notify cfg w (''SPOT OPEN: '' @ COURSE_NAME) ?msg")
  have c: "notify_calls trn = [(''SPOT OPEN: '' @ COURSE_NAME, ?msg)]"
    using notify_trace [of cfg w "''SPOT OPEN: '' @ COURSE_NAME" ?msg] n by simp
  from t c have A: "notify_calls (trace_of (run_iteration cfg w s))
      = [(''SPOT OPEN: '' @ COURSE_NAME, ?msg)]"
    by (cases r) (simp_all add: iteration_open [OF f assms(2) m n] trace_of_def)
  have B: "(INFO, Spot_available ?msg) \<in> set (logs (trace_of (run_iteration cfg w s)))"
    by (cases r) (simp_all add: iteration_open [OF f assms(2) m n] trace_of_def)
  from e l A B show ?thesis by blast
qed

text \<open>
  C1, witness: the poll that reads 8 of 10, from a state whose flag is already set.
\<close>

theorem open_seat_notifies_once_witness:
  "snd (fetch_enrollment (http (quiet_world (Returns (page ''10'' ''8''))))) = Returns (Some (8, 10))
   \<and> py_str (10 - 8) = Returns ''2''
   \<and> notify_calls (trace_of (run_iteration sample_config (quiet_world (Returns (page ''10'' ''8'')))
        \<lparr>consecutive_failures = 0, notified = True\<rparr>))
       = [(''SPOT OPEN: COSC 031 - Algorithms'', ''2 spot(s) open! Enrolled: 8/10'')]"
proof -
  have f: "snd (fetch_enrollment (http (quiet_world (Returns (page ''10'' ''8'')))))
      = Returns (Some (8, 10))" by code_simp
  have m: "py_str (10 - 8) = Returns ''2''" by code_simp
  have e: "py_str 8 = Returns ''8''" by code_simp
  have l: "py_str 10 = Returns ''10''" by code_simp
  have c: "''SPOT OPEN: '' @ COURSE_NAME = ''SPOT OPEN: COSC 031 - Algorithms''"
    by (simp add: COURSE_NAME_def)
  have "(8::int) < 10" by simp
  from open_seat_notifies_once [OF f this m, of sample_config
      "\<lparr>consecutive_failures = 0, notified = True\<rparr>"]
  have "notify_calls (trace_of (run_iteration sample_config (quiet_world (Returns (page ''10'' ''8'')))
        \<lparr>consecutive_failures = 0, notified = True\<rparr>))
       = [(''SPOT OPEN: COSC 031 - Algorithms'', ''2 spot(s) open! Enrolled: 8/10'')]"
    unfolding e l c by auto
  with f m show ?thesis by blast
qed

text \<open>
  C1, counterexample: on the page whose limit cell holds 4300 nines and whose enrolment
  cell holds \<open>-1\<close> the fetch returns the pair, enrolled is below limit, and the number of
  open spots has 4301 digits. Building the message raises \<open>ValueError\<close>: \<open>notify\<close> is not
  called and the exception leaves \<open>run\<close>.
\<close>

theorem unformattable_spot_count_skips_notify:
  "snd (fetch_enrollment (http nines_world)) = Returns (Some (- 1, 10 ^ int_max_str_digits - 1))
   \<and> (- 1 :: int) < 10 ^ int_max_str_digits - 1
   \<and> py_str (10 ^ int_max_str_digits - 1 - (- 1)) = Raises ValueError
   \<and> notify_calls (trace_of (run_iteration sample_config nines_world initial_state)) = []
   \<and> ending_of (run_iteration sample_config nines_world initial_state) = Propagates ValueError"
proof -
  have "(1::int) \<le> 10 ^ int_max_str_digits" by (rule one_le_power) simp
  then have lt: "(- 1 :: int) < 10 ^ int_max_str_digits - 1" by simp
  have p: "py_str (10 ^ int_max_str_digits - 1 - (- 1)) = Raises ValueError"
    by (simp add: py_str_pow10)
  from lt p show ?thesis
    by (simp add: fetch_nines iteration_nines trace_of_def ending_of_def)
qed

text \<open>
  C9. In a failed poll (the fetch returns \<open>None\<close> or raises \<open>RequestException\<close>) the state
  changes in \<open>consecutive_failures\<close> alone, which grows by one; the \<open>notified\<close> flag is
  kept and \<open>notify\<close> is not called.
\<close>

theorem failed_poll_changes_counter_only:
  assumes "failed_poll w"
  shows "state_of (run_iteration cfg w s)
       = s\<lparr>consecutive_failures := consecutive_failures s + 1\<rparr>
     \<and> notified (state_of (run_iteration cfg w s)) = notified s
     \<and> notify_calls (trace_of (run_iteration cfg w s)) = []"
  using failed_iteration(1,3) [OF assms, of cfg s] by simp

text \<open>C9, witness: a transport failure and a page without the CRN, with the flag set.\<close>

theorem failed_poll_changes_counter_only_witness:
  "failed_poll (quiet_world (Raises (RequestException ''timeout'')))
   \<and> failed_poll (quiet_world (Returns []))
   \<and> state_of (run_iteration sample_config (quiet_world (Raises (RequestException ''timeout'')))
        \<lparr>consecutive_failures = 2, notified = True\<rparr>)
       = \<lparr>consecutive_failures = 3, notified = True\<rparr>
   \<and> state_of (run_iteration sample_config (quiet_world (Returns []))
        \<lparr>consecutive_failures = 2, notified = True\<rparr>)
       = \<lparr>consecutive_failures = 3, notified = True\<rparr>
   \<and> notify_calls (trace_of (run_iteration sample_config (quiet_world (Returns []))
        \<lparr>consecutive_failures = 2, notified = True\<rparr>)) = []"
proof -
  have a: "failed_poll (quiet_world (Raises (RequestException ''timeout'')))" by code_simp
  have b: "failed_poll (quiet_world (Returns []))" by code_simp
  from failed_poll_changes_counter_only [OF a, of sample_config
      "\<lparr>consecutive_failures = 2, notified = True\<rparr>"]
    failed_poll_changes_counter_only [OF b, of sample_config
      "\<lparr>consecutive_failures = 2, notified = True\<rparr>"]
    a b
  show ?thesis by simp
qed

text \<open>
  C6. A poll whose fetch returns a pair leaves \<open>consecutive_failures\<close> at 0, whatever it
  was before; every sleep of that iteration lasts the base interval, and when the loop
  goes on to the next poll it has slept exactly once, for the base interval.
\<close>

theorem success_resets_backoff:
  assumes "snd (fetch_enrollment (http w)) = Returns (Some (enrl, lim))"
  shows "consecutive_failures (state_of (run_iteration cfg w s)) = 0
     \<and> list_all (\<lambda>x. x = CHECK_INTERVAL_SECONDS) (sleeps (trace_of (run_iteration cfg w s)))
     \<and> (ending_of (run_iteration cfg w s) = Goes_on
          \<longrightarrow> sleeps (trace_of (run_iteration cfg w s)) = [CHECK_INTERVAL_SECONDS])"
proof -
  obtain tr where f: "fetch_enrollment (http w) = (tr, Returns (Some (enrl, lim)))"
    using assms by (cases "fetch_enrollment (http w)") auto
  have t: "sleeps tr = []" using fetch_trace [of "http w"] f by simp
  show ?thesis
  proof (cases "enrl < lim")
    case True
    show ?thesis
    proof (cases "spot_message (lim - enrl) enrl lim")
      case (Raises e)
      with t show ?thesis
        by (simp add: iteration_unformattable [OF f True Raises] state_of_def trace_of_def
            ending_of_def)
    next
      case (Returns msg)
      obtain trn r where n: "notify cfg w (''SPOT OPEN: '' @ COURSE_NAME) msg = (trn, r)"
        by (cases "notify cfg w (''SPOT OPEN: '' @ COURSE_NAME) msg")
      have "sleeps trn = []"
        using notify_trace [of cfg w "''SPOT OPEN: '' @ COURSE_NAME" msg] n by simp
      with t show ?thesis
        by (cases r)
           (simp_all add: iteration_open [OF f True Returns n] state_of_def trace_of_def
              ending_of_def)
    qed
  next
    case False
    with t show ?thesis
      by (simp add: iteration_full [OF f False] state_of_def trace_of_def ending_of_def)
  qed
qed

text \<open>
  C6, witness: after three failures in a row the poll reads 8 of 10; the counter is 0
  again and the loop goes on after one sleep of 300 seconds.
\<close>

theorem success_resets_backoff_witness:
  "snd (fetch_enrollment (http (quiet_world (Returns (page ''10'' ''8''))))) = Returns (Some (8, 10))
   \<and> ending_of (run_iteration sample_config (quiet_world (Returns (page ''10'' ''8'')))
        \<lparr>consecutive_failures = 3, notified = False\<rparr>) = Goes_on
   \<and> consecutive_failures (state_of (run_iteration sample_config
        (quiet_world (Returns (page ''10'' ''8''))) \<lparr>consecutive_failures = 3, notified = False\<rparr>)) = 0
   \<and> sleeps (trace_of (run_iteration sample_config (quiet_world (Returns (page ''10'' ''8'')))
        \<lparr>consecutive_failures = 3, notified = False\<rparr>)) = [300]"
proof -
  have f: "snd (fetch_enrollment (http (quiet_world (Returns (page ''10'' ''8'')))))
      = Returns (Some (8, 10))" by code_simp
  have g: "ending_of (run_iteration sample_config (quiet_world (Returns (page ''10'' ''8'')))
        \<lparr>consecutive_failures = 3, notified = False\<rparr>) = Goes_on" by code_simp
  have i: "CHECK_INTERVAL_SECONDS = 300" by (simp add: CHECK_INTERVAL_SECONDS_def)
  from success_resets_backoff [OF f, of sample_config
      "\<lparr>consecutive_failures = 3, notified = False\<rparr>"] f g
  show ?thesis unfolding i by simp
qed

text \<open>
  C3. A failed poll increments \<open>consecutive_failures\<close> and then sleeps for
  \<open>min (CHECK_INTERVAL_SECONDS * 2 ^ consecutive_failures) MAX_BACKOFF_SECONDS\<close>, taken at the
  incremented count. So over a run of failed polls the \<open>k\<close>-th wait is that minimum at the
  starting count plus \<open>k\<close>, the waits never decrease and none exceeds the maximum backoff;
  unless a sleep is cut, there is one wait for each failed poll.
\<close>

theorem backoff_grows_to_cap:
  assumes "\<forall>w \<in> set ws. failed_poll w"
  shows "(\<forall>w. failed_poll w \<longrightarrow>
            consecutive_failures (state_of (run_iteration cfg w s)) = consecutive_failures s + 1
          \<and> sleeps (trace_of (run_iteration cfg w s))
              = [min (CHECK_INTERVAL_SECONDS * 2 ^ (consecutive_failures s + 1)) MAX_BACKOFF_SECONDS])
     \<and> sleeps (trace_of (run_loop cfg ws s))
         = map (\<lambda>k. min (CHECK_INTERVAL_SECONDS * 2 ^ (consecutive_failures s + k)) MAX_BACKOFF_SECONDS)
             [1..<Suc (length (sleeps (trace_of (run_loop cfg ws s))))]
     \<and> sorted (sleeps (trace_of (run_loop cfg ws s)))
     \<and> (\<forall>x \<in> set (sleeps (trace_of (run_loop cfg ws s))). x \<le> MAX_BACKOFF_SECONDS)
     \<and> ((\<forall>w \<in> set ws. \<not> sleep_interrupted w)
          \<longrightarrow> length (sleeps (trace_of (run_loop cfg ws s))) = length ws)"
proof -
  let ?sl = "sleeps (trace_of (run_loop cfg ws s))"
  from failed_run [OF assms, of cfg s] obtain n where n: "n \<le> length ws"
    "?sl = map (\<lambda>k. backoff_wait (consecutive_failures s + k)) [1..<Suc n]"
    "(\<forall>w \<in> set ws. \<not> sleep_interrupted w) \<longrightarrow> n = length ws" by blast
  from n(2) have len: "length ?sl = n" by simp
  have one: "\<forall>w. failed_poll w \<longrightarrow>
            consecutive_failures (state_of (run_iteration cfg w s)) = consecutive_failures s + 1
          \<and> sleeps (trace_of (run_iteration cfg w s)) = [backoff_wait (consecutive_failures s + 1)]"
    by (simp add: failed_iteration)
  have form: "?sl = map (\<lambda>k. backoff_wait (consecutive_failures s + k)) [1..<Suc (length ?sl)]"
    using n(2) unfolding len .
  have srt: "sorted ?sl"
    unfolding n(2) by (rule sorted_map_mono_upt) (simp add: backoff_wait_mono)
  have cap: "\<forall>x \<in> set ?sl. x \<le> MAX_BACKOFF_SECONDS"
    unfolding n(2) by (auto simp: backoff_wait_le)
  from one form srt cap n(3) len show ?thesis
    unfolding backoff_wait_def by blast
qed

text \<open>
  C3, witness: four failed polls from the initial state wait 600, 1200, 1800 and 1800
  seconds.
\<close>

theorem backoff_grows_to_cap_witness:
  "list_all failed_poll four_failures
   \<and> sleeps (trace_of (run_loop sample_config four_failures initial_state)) = [600, 1200, 1800, 1800]
   \<and> sorted (sleeps (trace_of (run_loop sample_config four_failures initial_state)))
   \<and> list_all (\<lambda>x. x \<le> MAX_BACKOFF_SECONDS)
        (sleeps (trace_of (run_loop sample_config four_failures initial_state)))
   \<and> consecutive_failures (state_of (run_iteration sample_config (quiet_world (Returns []))
        \<lparr>consecutive_failures = 1, notified = False\<rparr>)) = 2
   \<and> sleeps (trace_of (run_iteration sample_config (quiet_world (Returns []))
        \<lparr>consecutive_failures = 1, notified = False\<rparr>)) = [1200]"
proof -
  have a: "list_all failed_poll four_failures" by code_simp
  then have a': "\<forall>w \<in> set four_failures. failed_poll w" by (simp only: list_all_iff)
  have v: "sleeps (trace_of (run_loop sample_config four_failures initial_state))
      = [600, 1200, 1800, 1800]" by code_simp
  have b: "failed_poll (quiet_world (Returns []))" by code_simp
  have m: "min (CHECK_INTERVAL_SECONDS * 2 ^ (1 + 1)) MAX_BACKOFF_SECONDS = 1200"
    by (simp add: CHECK_INTERVAL_SECONDS_def MAX_BACKOFF_SECONDS_def)
  note t = backoff_grows_to_cap [OF a', of sample_config]
  from t [of initial_state]
  have 1: "sorted (sleeps (trace_of (run_loop sample_config four_failures initial_state)))"
    by blast
  from t [of initial_state]
  have "\<forall>x \<in> set (sleeps (trace_of (run_loop sample_config four_failures initial_state))).
      x \<le> MAX_BACKOFF_SECONDS" by blast
  then have 2: "list_all (\<lambda>x. x \<le> MAX_BACKOFF_SECONDS)
        (sleeps (trace_of (run_loop sample_config four_failures initial_state)))"
    by (simp only: list_all_iff)
  from t [of "\<lparr>consecutive_failures = 1, notified = False\<rparr>"] b
  have 3: "consecutive_failures (state_of (run_iteration sample_config (quiet_world (Returns []))
        \<lparr>consecutive_failures = 1, notified = False\<rparr>)) = 2
     \<and> sleeps (trace_of (run_iteration sample_config (quiet_world (Returns []))
        \<lparr>consecutive_failures = 1, notified = False\<rparr>)) = [1200]"
    using m by simp
  from a v 1 2 3 show ?thesis by blast
qed

text \<open>
  C5. The trace of a run holds one \<open>Enrolled\<close> record for each successful poll and none
  for any other poll. After any run, the \<open>notified\<close> flag is set only if there was a
  successful poll and the most recent one read enrolled below limit. A successful poll
  that reads enrolled at or above limit while the flag is set clears the flag, logs
  \<open>Class is full again\<close> and does not call \<open>notify\<close>.
\<close>

theorem notified_only_while_open:
  "(notified (state_of (run cfg ws))
      \<longrightarrow> polls (trace_of (run cfg ws)) \<noteq> []
        \<and> fst (last (polls (trace_of (run cfg ws)))) < snd (last (polls (trace_of (run cfg ws)))))
   \<and> (\<forall>w s enrl lim. snd (fetch_enrollment (http w)) = Returns (Some (enrl, lim))
        \<longrightarrow> polls (trace_of (run_iteration cfg w s)) = [(enrl, lim)])
   \<and> (\<forall>w s. (\<forall>p. snd (fetch_enrollment (http w)) \<noteq> Returns (Some p))
        \<longrightarrow> polls (trace_of (run_iteration cfg w s)) = [])
   \<and> (\<forall>w s enrl lim.
        notified s \<and> snd (fetch_enrollment (http w)) = Returns (Some (enrl, lim)) \<and> lim \<le> enrl
        \<longrightarrow> \<not> notified (state_of (run_iteration cfg w s))
          \<and> (INFO, Full_again) \<in> set (logs (trace_of (run_iteration cfg w s)))
          \<and> notify_calls (trace_of (run_iteration cfg w s)) = [])"
proof (intro conjI allI impI)
  assume "notified (state_of (run cfg ws))"
  with run_flag_inv [of cfg ws]
  show "polls (trace_of (run cfg ws)) \<noteq> []"
    and "fst (last (polls (trace_of (run cfg ws)))) < snd (last (polls (trace_of (run cfg ws))))"
    by (simp_all add: flag_inv_def seat_open_def)
next
  fix w :: world and s :: monitor_state and enrl lim :: int
  assume "snd (fetch_enrollment (http w)) = Returns (Some (enrl, lim))"
  then show "polls (trace_of (run_iteration cfg w s)) = [(enrl, lim)]"
    by (rule successful_iteration_polls)
next
  fix w :: world and s :: monitor_state
  assume "\<forall>p. snd (fetch_enrollment (http w)) \<noteq> Returns (Some p)"
  then show "polls (trace_of (run_iteration cfg w s)) = []"
    by (rule unsuccessful_iteration_polls)
next
  fix w :: world and s :: monitor_state and enrl lim :: int
  assume a: "notified s \<and> snd (fetch_enrollment (http w)) = Returns (Some (enrl, lim))
      \<and> lim \<le> enrl"
  then obtain tr where f: "fetch_enrollment (http w) = (tr, Returns (Some (enrl, lim)))"
    by (cases "fetch_enrollment (http w)") auto
  from a have full: "\<not> enrl < lim" by simp
  have t: "notify_calls tr = []" using fetch_trace [of "http w"] f by simp
  show "\<not> notified (state_of (run_iteration cfg w s))"
    by (simp add: iteration_full [OF f full] state_of_def)
  from a show "(INFO, Full_again) \<in> set (logs (trace_of (run_iteration cfg w s)))"
    by (simp add: iteration_full [OF f full] trace_of_def)
  from t show "notify_calls (trace_of (run_iteration cfg w s)) = []"
    by (simp add: iteration_full [OF f full] trace_of_def)
qed

text \<open>
  C5, witness: after a full poll, an open poll (8 of 10) and a transport failure the flag
  is set and the latest successful poll is (8, 10); a poll that then reads 10 of 10
  clears the flag, logs the full class and calls no notifier.
\<close>

theorem notified_only_while_open_witness:
  "notified (state_of (run sample_config full_open_failure))
   \<and> polls (trace_of (run sample_config full_open_failure)) = [(10, 10), (8, 10)]
   \<and> fst (last (polls (trace_of (run sample_config full_open_failure))))
       < snd (last (polls (trace_of (run sample_config full_open_failure))))
   \<and> state_of (run sample_config full_open_failure) = \<lparr>consecutive_failures = 1, notified = True\<rparr>
   \<and> snd (fetch_enrollment (http (quiet_world (Returns (page ''10'' ''10''))))) = Returns (Some (10, 10))
   \<and> \<not> notified (state_of (run_iteration sample_config (quiet_world (Returns (page ''10'' ''10'')))
          \<lparr>consecutive_failures = 1, notified = True\<rparr>))
   \<and> (INFO, Full_again) \<in> set (logs (trace_of (run_iteration sample_config
          (quiet_world (Returns (page ''10'' ''10''))) \<lparr>consecutive_failures = 1, notified = True\<rparr>)))
   \<and> notify_calls (trace_of (run_iteration sample_config (quiet_world (Returns (page ''10'' ''10'')))
          \<lparr>consecutive_failures = 1, notified = True\<rparr>)) = []"
proof -
  have n: "notified (state_of (run sample_config full_open_failure))" by code_simp
  have p: "polls (trace_of (run sample_config full_open_failure)) = [(10, 10), (8, 10)]"
    by code_simp
  have s: "state_of (run sample_config full_open_failure)
      = \<lparr>consecutive_failures = 1, notified = True\<rparr>" by code_simp
  have f: "snd (fetch_enrollment (http (quiet_world (Returns (page ''10'' ''10'')))))
      = Returns (Some (10, 10))" by code_simp
  note t = notified_only_while_open [of sample_config full_open_failure]
  from t n
  have 1: "fst (last (polls (trace_of (run sample_config full_open_failure))))
       < snd (last (polls (trace_of (run sample_config full_open_failure))))" by blast
  have g: "notified \<lparr>consecutive_failures = 1, notified = True\<rparr>
      \<and> snd (fetch_enrollment (http (quiet_world (Returns (page ''10'' ''10'')))))
          = Returns (Some (10, 10)) \<and> (10::int) \<le> 10"
    using f by simp
  from t g
  have 2: "\<not> notified (state_of (run_iteration sample_config (quiet_world (Returns (page ''10'' ''10'')))
          \<lparr>consecutive_failures = 1, notified = True\<rparr>))
   \<and> (INFO, Full_again) \<in> set (logs (trace_of (run_iteration sample_config
          (quiet_world (Returns (page ''10'' ''10''))) \<lparr>consecutive_failures = 1, notified = True\<rparr>)))
   \<and> notify_calls (trace_of (run_iteration sample_config (quiet_world (Returns (page ''10'' ''10'')))
          \<lparr>consecutive_failures = 1, notified = True\<rparr>)) = []" by blast
  from n p s f 1 2 show ?thesis by blast
qed

text \<open>
  C7, as amended. When \<open>osascript\<close> is started and runs to an exit status, whatever the
  status, and the mail session completes or fails with an exception (an instance of
  \<open>Exception\<close>), \<open>notify\<close> returns normally after starting the thread for the friends'
  mail. The only log record it writes is that of the mail: a warning when the mail
  failed. Nothing is logged about the exit status. A poll that called \<open>notify\<close> in such a
  world goes on to the idle sleep and, unless that sleep is cut, to the next poll.
\<close>

theorem notify_contains_mail_failure:
  assumes "alert w = Exited status"
    and "smtp w = Returns () \<or> is_Exception e \<and> smtp w = Raises e"
  shows "snd (notify cfg w title message) = Returns ()
     \<and> logs (fst (notify cfg w title message))
         = [if smtp w = Returns () then (INFO, Email_sent (EMAIL_ADDRESS cfg))
            else (WARNING, Email_failed (EMAIL_ADDRESS cfg) e)]
     \<and> last (fst (notify cfg w title message)) = Thread_start title message
     \<and> (\<forall>s. notify_calls (trace_of (run_iteration cfg w s)) \<noteq> [] \<and> \<not> sleep_interrupted w
          \<longrightarrow> ending_of (run_iteration cfg w s) = Goes_on
            \<and> last (trace_of (run_iteration cfg w s)) = Sleep CHECK_INTERVAL_SECONDS)"
proof -
  have r: "snd (notify cfg w title message) = Returns ()" for title message
    using assms by (auto simp: notify_def send_email_def Let_def)
  have l: "logs (fst (notify cfg w title message))
         = [if smtp w = Returns () then (INFO, Email_sent (EMAIL_ADDRESS cfg))
            else (WARNING, Email_failed (EMAIL_ADDRESS cfg) e)]"
    using assms by (auto simp: notify_def send_email_def Let_def)
  have t: "last (fst (notify cfg w title message)) = Thread_start title message"
    using assms by (auto simp: notify_def send_email_def Let_def)
  have g: "ending_of (run_iteration cfg w s) = Goes_on
      \<and> last (trace_of (run_iteration cfg w s)) = Sleep CHECK_INTERVAL_SECONDS"
    if h: "notify_calls (trace_of (run_iteration cfg w s)) \<noteq> [] \<and> \<not> sleep_interrupted w" for s
  proof -
    from h have "notify_calls (trace_of (run_iteration cfg w s)) \<noteq> []" by simp
    from notify_called [OF this] obtain tr enrl lim msg
      where f: "fetch_enrollment (http w) = (tr, Returns (Some (enrl, lim)))"
        and o: "enrl < lim" and m: "spot_message (lim - enrl) enrl lim = Returns msg" by blast
    obtain trn where n: "notify cfg w (''SPOT OPEN: '' @ COURSE_NAME) msg = (trn, Returns ())"
      using r [of "''SPOT OPEN: '' @ COURSE_NAME" msg]
      by (cases "notify cfg w (''SPOT OPEN: '' @ COURSE_NAME) msg") auto
    from h show ?thesis
      by (simp add: iteration_open [OF f o m n] ending_of_def trace_of_def)
  qed
  from r l t g show ?thesis by blast
qed

text \<open>
  C7, witness: \<open>osascript\<close> exits with status 1 and the mail session raises; \<open>notify\<close>
  returns, the warning about the mail is the only log record, and the poll that called
  \<open>notify\<close> goes on.
\<close>

theorem notify_contains_mail_failure_witness:
  "alert mail_down_world = Exited 1
   \<and> is_Exception (SMTPException ''auth'') \<and> smtp mail_down_world = Raises (SMTPException ''auth'')
   \<and> snd (notify sample_config mail_down_world ''t'' ''m'') = Returns ()
   \<and> logs (fst (notify sample_config mail_down_world ''t'' ''m''))
       = [(WARNING, Email_failed ''me@example.org'' (SMTPException ''auth''))]
   \<and> length (notify_calls (trace_of (run_iteration sample_config mail_down_world initial_state))) = 1
   \<and> ending_of (run_iteration sample_config mail_down_world initial_state) = Goes_on"
proof -
  have a: "alert mail_down_world = Exited 1" by code_simp
  have b: "is_Exception (SMTPException ''auth'')" by code_simp
  have c: "smtp mail_down_world = Raises (SMTPException ''auth'')" by code_simp
  have d: "smtp mail_down_world \<noteq> Returns ()" by (simp add: c)
  have f: "length (notify_calls (trace_of (run_iteration sample_config mail_down_world
      initial_state))) = 1" by code_simp
  then have f': "notify_calls (trace_of (run_iteration sample_config mail_down_world
      initial_state)) \<noteq> []" by auto
  have i: "\<not> sleep_interrupted mail_down_world" by code_simp
  have m: "EMAIL_ADDRESS sample_config = ''me@example.org''" by (simp add: sample_config_def)
  from b c have bc: "smtp mail_down_world = Returns ()
      \<or> is_Exception (SMTPException ''auth'') \<and> smtp mail_down_world = Raises (SMTPException ''auth'')"
    by blast
  note t = notify_contains_mail_failure [OF a bc, of sample_config "''t''" "''m''"]
  from t have 1: "snd (notify sample_config mail_down_world ''t'' ''m'') = Returns ()" by blast
  from t d m have 2: "logs (fst (notify sample_config mail_down_world ''t'' ''m''))
       = [(WARNING, Email_failed ''me@example.org'' (SMTPException ''auth''))]" by simp
  from t f' i have 3: "ending_of (run_iteration sample_config mail_down_world initial_state) = Goes_on"
    by blast
  from a b c f 1 2 3 show ?thesis by blast
qed

text \<open>
  C7, counterexample to the claim that a failure of the desktop alert is logged and not
  propagated. When \<open>osascript\<close> exits with status 1, the log of \<open>notify\<close> holds the record of
  the mail sent and nothing about the alert. When \<open>osascript\<close> cannot be started, the
  \<open>OSError\<close> leaves \<open>notify\<close> and then \<open>run\<close>: the loop ends.
\<close>

theorem alert_failure_neither_logged_nor_contained:
  "alert alert_exit_world = Exited 1
   \<and> logs (fst (notify sample_config alert_exit_world ''t'' ''m''))
       = [(INFO, Email_sent ''me@example.org'')]
   \<and> alert alert_missing_world = Not_started ''osascript''
   \<and> snd (notify sample_config alert_missing_world ''t'' ''m'') = Raises (OSError ''osascript'')
   \<and> logs (fst (notify sample_config alert_missing_world ''t'' ''m'')) = []
   \<and> ending_of (run_iteration sample_config alert_missing_world initial_state)
       = Propagates (OSError ''osascript'')"
  by code_simp


end
